theory Spec2Isabelle
  imports Main "HOL-Library.Word" "HOL-Library.AList"
begin

section \<open>The PDF merge engine of \<^verbatim>\<open>src/dbcsv/read.go\<close> (package pdf)\<close>

text \<open>
  The second document of \<^verbatim>\<open>src/dbcsv/read.go\<close> is package \<^verbatim>\<open>pdf\<close>: \<^verbatim>\<open>MergeFiles\<close>,
  \<^verbatim>\<open>copyReferencedObjects\<close> and \<^verbatim>\<open>mergePageTrees\<close>. They are embedded below, one HOL
  function per Go function, with the destination store passed in and returned (the Go
  code mutates it through a pointer). The object model and the document store belong to
  the library \<^verbatim>\<open>github.com/nathankerr/pdf\<close>, which is not part of the sources; they are
  modelled from the specification.
\<close>

subsection \<open>Object model\<close>

text \<open>
  Modelled from the spec: \<^verbatim>\<open>pdf.ObjectReference\<close>, a type of the library (section 3:
  ``an opaque identity (numeric id + generation) naming a slot in a document's object
  store. Two references are equal iff id and generation match'').
\<close>

datatype ObjectReference = ObjectReference (ObjectNumber: nat) (GenerationNumber: nat)

text \<open>
  Modelled from the spec: \<^verbatim>\<open>pdf.Object\<close> and its kinds, types of the library (section 2,
  Object Model, and section 3): Null, Name, Integer, Real, String, Dictionary, Array,
  Stream, ObjectReference and IndirectObject. The Go code names the same kinds
  (\<^verbatim>\<open>pdf.Null{}\<close>, \<^verbatim>\<open>pdf.Name\<close>, \<^verbatim>\<open>pdf.Integer\<close>, \<^verbatim>\<open>pdf.Real\<close>, \<^verbatim>\<open>pdf.String\<close>,
  \<^verbatim>\<open>pdf.Dictionary\<close>, \<^verbatim>\<open>pdf.Array\<close>, \<^verbatim>\<open>pdf.Stream\<close> with its field \<^verbatim>\<open>Dictionary\<close>,
  \<^verbatim>\<open>pdf.ObjectReference\<close>, \<^verbatim>\<open>pdf.IndirectObject{ObjectReference, Object}\<close>).

  \<^item> \<^verbatim>\<open>pdf.Integer\<close> is a Go integer type (the code writes \<^verbatim>\<open>pdf.Integer(0)\<close> and adds with
    \<^verbatim>\<open>+=\<close>): a machine word whose addition wraps around, of the 64 bits that Go's \<^verbatim>\<open>int\<close>
    has on 64-bit platforms; \<open>sint\<close> reads its signed value.
  \<^item> \<^verbatim>\<open>pdf.Real\<close> is carried through unread: the model keeps its 64 bits.
  \<^item> A Dictionary is a Go map from Name to Object. It is an association list here, in
    the order in which \<^verbatim>\<open>range\<close> visits the entries (Go leaves that order open; every
    theorem below holds for every order). \<open>map_of\<close> is the lookup, \<open>AList.update\<close> the
    assignment \<^verbatim>\<open>d[k] = v\<close>.
  \<^item> Objects are values: \<^verbatim>\<open>Get\<close> hands out the stored value and \<^verbatim>\<open>Add\<close> stores the value it
    is given.
  \<^item> The object kind ObjectReference is the constructor \<open>Reference\<close>.
\<close>

datatype Object =
    Null
  | Name string
  | Integer "64 word"
  | Real "64 word"
  | String string
  | Dictionary "(string \<times> Object) list"
  | Array "Object list"
  | Stream "(string \<times> Object) list" "8 word list"
  | Reference ObjectReference
  | IndirectObject ObjectReference Object

text \<open>
  The errors the merge can return: \<^verbatim>\<open>fmt.Errorf("create %q: %v", ...)\<close>,
  \<^verbatim>\<open>fmt.Errorf("open %q: %v", ...)\<close>, an error of the store's \<^verbatim>\<open>Add\<close> or \<^verbatim>\<open>Save\<close> passed on
  as it is, and \<^verbatim>\<open>fmt.Errorf("unhandled %T", obj)\<close> with the Go type name of the object.
\<close>

datatype error =
    CreateError string
  | OpenError string
  | AddError
  | SaveError
  | Unhandled string

text \<open>
  A failed type assertion \<^verbatim>\<open>x.(T)\<close> is a run-time panic, not a returned error. The five
  assertions of the code, by the line they stand on:
  \<^verbatim>\<open>root.(pdf.ObjectReference)\<close> (406), \<^verbatim>\<open>merged.Get(root).(pdf.Dictionary)\<close> (413),
  \<^verbatim>\<open>catalog["Pages"].(pdf.ObjectReference)\<close> (521), \<^verbatim>\<open>file.Get(pagesRef).(pdf.Dictionary)\<close>
  (525) and \<^verbatim>\<open>pages["Count"].(pdf.Integer)\<close> (535).
\<close>

datatype panic =
    RootNotObjectReference
  | CatalogNotDictionary
  | PagesNotObjectReference
  | PagesNotDictionary
  | CountNotInteger

datatype 'a outcome = Returns 'a | Panics panic

fun assert_ObjectReference :: "Object option \<Rightarrow> ObjectReference option" where
  "assert_ObjectReference (Some (Reference r)) = Some r"
| "assert_ObjectReference _ = None"

fun assert_Dictionary :: "Object option \<Rightarrow> (string \<times> Object) list option" where
  "assert_Dictionary (Some (Dictionary d)) = Some d"
| "assert_Dictionary _ = None"

fun assert_Integer :: "Object option \<Rightarrow> 64 word option" where
  "assert_Integer (Some (Integer i)) = Some i"
| "assert_Integer _ = None"

subsection \<open>Document store\<close>

text \<open>
  Modelled from the spec: \<^verbatim>\<open>pdf.File\<close>, the Document Handle of the library (section 2 and
  section 6). A store is its slots (reference and object), its \<^verbatim>\<open>Root\<close> field, and what
  the environment will do to it: \<open>add_faults\<close> lists the outcomes of the coming calls of
  \<^verbatim>\<open>Add\<close> (\<open>True\<close>: that call fails with an error; beyond the list every call succeeds) and
  \<open>save_fault\<close> says whether \<^verbatim>\<open>Save\<close> fails.
\<close>

record File =
  objects :: "(ObjectReference \<times> Object) list"
  Root :: ObjectReference
  add_faults :: "bool list"
  save_fault :: bool

text \<open>The references that name a slot of a store.\<close>

definition keys :: "File \<Rightarrow> ObjectReference set" where
  "keys f = fst ` set (objects f)"

text \<open>
  Modelled from the spec: \<^verbatim>\<open>(*File).Get\<close> of the library (``\<^verbatim>\<open>Get(ref)\<close> \<open>\<rightarrow>\<close> Object''). It
  returns the object of the slot; a reference that names no slot gives Null.
\<close>

definition Get :: "File \<Rightarrow> ObjectReference \<Rightarrow> Object" where
  "Get f reference = (case map_of (objects f) reference of None \<Rightarrow> Null | Some obj \<Rightarrow> obj)"

text \<open>
  Modelled from the spec: the fresh reference that \<^verbatim>\<open>Add\<close> allocates (``allocates a fresh
  reference''): one past the largest object number in use, generation 0.
\<close>

definition free_reference :: "File \<Rightarrow> ObjectReference" where
  "free_reference f =
     ObjectReference (Suc (fold max (map (ObjectNumber \<circ> fst) (objects f)) 0)) 0"

text \<open>
  Modelled from the spec: \<^verbatim>\<open>(*File).Add\<close> of the library (``\<^verbatim>\<open>Add(obj)\<close> \<open>\<rightarrow>\<close> ref | error
  (allocates a fresh reference, or overwrites the slot named by an IndirectObject's
  reference)''). It returns the store after the call and the Go results \<^verbatim>\<open>(ref, err)\<close>. A
  failing \<^verbatim>\<open>Add\<close> changes no slot and returns Go's zero reference with the error.
\<close>

definition Add :: "File \<Rightarrow> Object \<Rightarrow> File \<times> ObjectReference \<times> error option" where
  "Add f obj =
     (case add_faults f of
        True # rest \<Rightarrow> (f\<lparr>add_faults := rest\<rparr>, ObjectReference 0 0, Some AddError)
      | _ \<Rightarrow>
         (case obj of
            IndirectObject reference ob \<Rightarrow>
              (f\<lparr>objects := AList.update reference ob (objects f),
                 add_faults := tl (add_faults f)\<rparr>,
               reference, None)
          | _ \<Rightarrow>
              (f\<lparr>objects := AList.update (free_reference f) obj (objects f),
                 add_faults := tl (add_faults f)\<rparr>,
               free_reference f, None)))"

text \<open>
  Modelled from the spec: \<^verbatim>\<open>(*File).Save\<close> of the library (``\<^verbatim>\<open>Save()\<close> \<open>\<rightarrow>\<close> error''): an
  error or nil.
\<close>

definition Save :: "File \<Rightarrow> error option" where
  "Save f = (if save_fault f then Some SaveError else None)"

subsection \<open>Graph copy: \<^verbatim>\<open>copyReferencedObjects\<close>\<close>

text \<open>
  The translation table \<^verbatim>\<open>map[pdf.ObjectReference]pdf.ObjectReference\<close>. A Go map is shared
  by reference: the table a recursive call returns is the caller's own table, as the call
  left it. \<^verbatim>\<open>merge(newRefs)\<close> writes every entry of \<^verbatim>\<open>newRefs\<close> into that table.
\<close>

type_synonym table = "ObjectReference \<rightharpoonup> ObjectReference"

definition merge :: "table \<Rightarrow> table \<Rightarrow> table" where
  "merge refs newRefs = refs ++ newRefs"

text \<open>
  The type switch of \<^verbatim>\<open>copyReferencedObjects\<close> (lines 441 to 503), one equation per case,
  and its three \<^verbatim>\<open>range\<close> loops: \<open>copy_dict\<close> is the loop over a Dictionary (lines 472 to
  479) and over the Dictionary of a Stream (lines 491 to 497), \<open>copy_array\<close> the loop over
  an Array (lines 482 to 488). The result is the destination store as the call leaves
  it, and the Go results: \<open>Inl err\<close> for \<^verbatim>\<open>(nil, nil, err)\<close>, \<open>Inr (refs, obj)\<close> for
  \<^verbatim>\<open>(refs, obj, nil)\<close>. Null and IndirectObject fall to \<^verbatim>\<open>default\<close>.
\<close>

function copyReferencedObjects ::
    "table \<Rightarrow> File \<Rightarrow> File \<Rightarrow> Object \<Rightarrow> File \<times> (error + table \<times> Object)"
  and copy_dict ::
    "table \<Rightarrow> File \<Rightarrow> File \<Rightarrow> (string \<times> Object) list
       \<Rightarrow> File \<times> (error + table \<times> (string \<times> Object) list)"
  and copy_array ::
    "table \<Rightarrow> File \<Rightarrow> File \<Rightarrow> Object list \<Rightarrow> File \<times> (error + table \<times> Object list)"
where
  "copyReferencedObjects refs dst src (Reference t) =
     (case refs t of
        Some r \<Rightarrow> (dst, Inr (refs, Reference r))
      | None \<Rightarrow>
         (case Add dst Null of
            (dst1, ref, Some addErr) \<Rightarrow> (dst1, Inl addErr)
          | (dst1, ref, None) \<Rightarrow>
             (case copyReferencedObjects (refs(t \<mapsto> ref)) dst1 src (Get src t) of
                (dst2, Inl copyErr) \<Rightarrow> (dst2, Inl copyErr)
              | (dst2, Inr (newRefs, newObj)) \<Rightarrow>
                 (case Add dst2 (IndirectObject ref newObj) of
                    (dst3, ref', Some err) \<Rightarrow> (dst3, Inl err)
                  | (dst3, ref', None) \<Rightarrow>
                      (dst3, Inr ((merge newRefs newRefs)(t \<mapsto> ref'), Reference ref'))))))"
| "copyReferencedObjects refs dst src (Dictionary t) =
     (case copy_dict refs dst src t of
        (dst', Inl err) \<Rightarrow> (dst', Inl err)
      | (dst', Inr (refs', t')) \<Rightarrow> (dst', Inr (refs', Dictionary t')))"
| "copyReferencedObjects refs dst src (Array t) =
     (case copy_array refs dst src t of
        (dst', Inl err) \<Rightarrow> (dst', Inl err)
      | (dst', Inr (refs', t')) \<Rightarrow> (dst', Inr (refs', Array t')))"
| "copyReferencedObjects refs dst src (Stream d payload) =
     (case copy_dict refs dst src d of
        (dst', Inl err) \<Rightarrow> (dst', Inl err)
      | (dst', Inr (refs', d')) \<Rightarrow> (dst', Inr (refs', Stream d' payload)))"
| "copyReferencedObjects refs dst src (Name n) = (dst, Inr (refs, Name n))"
| "copyReferencedObjects refs dst src (Integer i) = (dst, Inr (refs, Integer i))"
| "copyReferencedObjects refs dst src (String s) = (dst, Inr (refs, String s))"
| "copyReferencedObjects refs dst src (Real x) = (dst, Inr (refs, Real x))"
| "copyReferencedObjects refs dst src Null = (dst, Inl (Unhandled ''pdf.Null''))"
| "copyReferencedObjects refs dst src (IndirectObject r ob) =
     (dst, Inl (Unhandled ''pdf.IndirectObject''))"
| "copy_dict refs dst src [] = (dst, Inr (refs, []))"
| "copy_dict refs dst src ((k, v) # rest) =
     (case copyReferencedObjects refs dst src v of
        (dst1, Inl err) \<Rightarrow> (dst1, Inl err)
      | (dst1, Inr (newRefs, v')) \<Rightarrow>
         (case copy_dict (merge newRefs newRefs) dst1 src rest of
            (dst2, Inl err) \<Rightarrow> (dst2, Inl err)
          | (dst2, Inr (refs2, rest')) \<Rightarrow> (dst2, Inr (refs2, (k, v') # rest'))))"
| "copy_array refs dst src [] = (dst, Inr (refs, []))"
| "copy_array refs dst src (v # rest) =
     (case copyReferencedObjects refs dst src v of
        (dst1, Inl err) \<Rightarrow> (dst1, Inl err)
      | (dst1, Inr (newRefs, v')) \<Rightarrow>
         (case copy_array (merge newRefs newRefs) dst1 src rest of
            (dst2, Inl err) \<Rightarrow> (dst2, Inl err)
          | (dst2, Inr (refs2, rest')) \<Rightarrow> (dst2, Inr (refs2, v' # rest'))))"
  by pat_completeness auto

text \<open>
  Termination. A call on a reference that is already in the table returns at once. A
  call on any other reference of the source enters it in the table before it recurses, so
  the number of source slots that are not in the table drops; a reference that names no
  source slot leads to Null, where the recursion ends. Every other call recurses into a
  smaller object, and the table it passes on never loses an entry.
\<close>

lemma merge_self [simp]: "merge m m = m"
  by (rule ext) (simp add: merge_def map_add_def split: option.splits)

lemma copy_partial_dom_mono:
  "copyReferencedObjects_copy_dict_copy_array_dom (Inl (refs, dst, src, obj)) \<Longrightarrow>
     copyReferencedObjects refs dst src obj = (dst', Inr (refs', obj')) \<Longrightarrow>
     dom refs \<subseteq> dom refs'"
  "copyReferencedObjects_copy_dict_copy_array_dom (Inr (Inl (refs, dst, src, d))) \<Longrightarrow>
     copy_dict refs dst src d = (dst', Inr (refs', d')) \<Longrightarrow> dom refs \<subseteq> dom refs'"
  "copyReferencedObjects_copy_dict_copy_array_dom (Inr (Inr (refs, dst, src, a))) \<Longrightarrow>
     copy_array refs dst src a = (dst', Inr (refs', a')) \<Longrightarrow> dom refs \<subseteq> dom refs'"
proof (induct arbitrary: dst' refs' obj' and dst' refs' d' and dst' refs' a'
    rule: copyReferencedObjects_copy_dict_copy_array.pinduct)
  case (1 refs dst src t)
  then show ?case
    by (fastforce simp: copyReferencedObjects.psimps split: option.splits prod.splits sum.splits)
next
  case (12 refs dst src k v rest)
  then show ?case
    by (fastforce simp: copy_dict.psimps split: option.splits prod.splits sum.splits)
next
  case (14 refs dst src v rest)
  then show ?case
    by (fastforce simp: copy_array.psimps split: option.splits prod.splits sum.splits)
qed (auto simp: copyReferencedObjects.psimps copy_dict.psimps copy_array.psimps
      split: option.splits prod.splits sum.splits)

lemma Get_outside: "t \<notin> keys f \<Longrightarrow> Get f t = Null"
  unfolding keys_def Get_def by (simp add: map_of_eq_None_iff[THEN iffD2])

lemma copy_total: "All copyReferencedObjects_copy_dict_copy_array_dom"
proof (relation "inv_image (less_than <*lex*> less_than)
    (\<lambda>x. case x of
       Inl (refs, dst, src, obj) \<Rightarrow>
         (card (keys src - dom refs), 2 * size obj + (case obj of Reference _ \<Rightarrow> 1 | _ \<Rightarrow> 0))
     | Inr (Inl (refs, dst, src, d)) \<Rightarrow>
         (card (keys src - dom refs), 2 * size_list (size_prod (\<lambda>_. 0) size) d)
     | Inr (Inr (refs, dst, src, a)) \<Rightarrow>
         (card (keys src - dom refs), 2 * size_list size a))", goal_cases)
  case 1
  show ?case by (intro wf_inv_image wf_lex_prod wf_less_than)
next
  case (2 refs dst src t x y xa ya)
  show ?case
  proof (cases "t \<in> keys src")
    case True
    have fin: "finite (keys src - dom refs)" by (simp add: keys_def)
    from 2 have "t \<notin> dom refs" by auto
    with True have "keys src - dom (refs(t \<mapsto> xa)) \<subset> keys src - dom refs" by auto
    with fin have "card (keys src - dom (refs(t \<mapsto> xa))) < card (keys src - dom refs)"
      by (rule psubset_card_mono)
    then show ?thesis by simp
  next
    case False
    then have "Get src t = Null" by (rule Get_outside)
    moreover have "keys src - dom (refs(t \<mapsto> xa)) = keys src - dom refs"
      using False by auto
    ultimately show ?thesis by simp
  qed
next
  case 3 then show ?case by (simp split: Object.splits)
next
  case 4 then show ?case by (simp split: Object.splits)
next
  case 5 then show ?case by (simp split: Object.splits)
next
  case 6 then show ?case by (simp split: Object.splits)
next
  case (7 refs dst src k v rest x y b xa ya)
  then have "dom refs \<subseteq> dom xa"
    using copy_partial_dom_mono(1)[of refs dst src v x xa ya] by simp
  then have "card (keys src - dom xa) \<le> card (keys src - dom refs)"
    by (intro card_mono) (auto simp: keys_def)
  then show ?case by (auto split: Object.splits)
next
  case 8 then show ?case by (simp split: Object.splits)
next
  case (9 refs dst src v rest x y b xa ya)
  then have "dom refs \<subseteq> dom xa"
    using copy_partial_dom_mono(1)[of refs dst src v x xa ya] by simp
  then have "card (keys src - dom xa) \<le> card (keys src - dom refs)"
    by (intro card_mono) (auto simp: keys_def)
  then show ?case by (auto split: Object.splits)
qed

termination copyReferencedObjects
  by (rule copy_total)

subsection \<open>Page-tree merge: \<^verbatim>\<open>mergePageTrees\<close>\<close>

text \<open>
  The loop of \<^verbatim>\<open>mergePageTrees\<close> over the catalogs (lines 519 to 536), with its locals
  \<^verbatim>\<open>kids\<close> and \<^verbatim>\<open>pageCount\<close>. It ends in a panic of one of the three type assertions, or
  with the locals and \<^verbatim>\<open>err\<close>: a non-nil \<^verbatim>\<open>err\<close> is the early \<^verbatim>\<open>return pageTreeRef, err\<close> of
  line 532.
\<close>

fun mergePageTrees_loop ::
    "File \<Rightarrow> ObjectReference \<Rightarrow> Object list \<Rightarrow> 64 word \<Rightarrow> (string \<times> Object) list list
       \<Rightarrow> File \<times> (Object list \<times> 64 word \<times> error option) outcome"
where
  "mergePageTrees_loop file pageTreeRef kids pageCount [] =
     (file, Returns (kids, pageCount, None))"
| "mergePageTrees_loop file pageTreeRef kids pageCount (catalog # rest) =
     (case assert_ObjectReference (map_of catalog ''Pages'') of
        None \<Rightarrow> (file, Panics PagesNotObjectReference)
      | Some pagesRef \<Rightarrow>
         (case assert_Dictionary (Some (Get file pagesRef)) of
            None \<Rightarrow> (file, Panics PagesNotDictionary)
          | Some pages0 \<Rightarrow>
             (let pages = AList.update ''Parent'' (Reference pageTreeRef) pages0 in
              case Add file (IndirectObject pagesRef (Dictionary pages)) of
                (file1, _, Some err) \<Rightarrow>
                  (file1, Returns (kids @ [Reference pagesRef], pageCount, Some err))
              | (file1, _, None) \<Rightarrow>
                 (case assert_Integer (map_of pages ''Count'') of
                    None \<Rightarrow> (file1, Panics CountNotInteger)
                  | Some n \<Rightarrow>
                      mergePageTrees_loop file1 pageTreeRef (kids @ [Reference pagesRef])
                        (pageCount + n) rest))))"

text \<open>
  \<^verbatim>\<open>mergePageTrees\<close> (lines 508 to 548) returns \<^verbatim>\<open>(pageTreeRef, err)\<close> on every path that
  does not panic.
\<close>

definition mergePageTrees ::
    "File \<Rightarrow> (string \<times> Object) list list \<Rightarrow> File \<times> (ObjectReference \<times> error option) outcome"
where
  "mergePageTrees file catalogs =
     (case Add file Null of
        (file1, pageTreeRef, Some err) \<Rightarrow> (file1, Returns (pageTreeRef, Some err))
      | (file1, pageTreeRef, None) \<Rightarrow>
         (case mergePageTrees_loop file1 pageTreeRef [] 0 catalogs of
            (file2, Panics p) \<Rightarrow> (file2, Panics p)
          | (file2, Returns (kids, pageCount, Some err)) \<Rightarrow>
              (file2, Returns (pageTreeRef, Some err))
          | (file2, Returns (kids, pageCount, None)) \<Rightarrow>
             (case Add file2
                     (IndirectObject pageTreeRef
                        (Dictionary [(''Type'', Name ''Pages''), (''Kids'', Array kids),
                                     (''Count'', Integer pageCount)])) of
                (file3, _, err) \<Rightarrow> (file3, Returns (pageTreeRef, err)))))"

subsection \<open>Orchestrator: \<^verbatim>\<open>MergeFiles\<close>\<close>

text \<open>
  Modelled from the spec: \<^verbatim>\<open>pdf.Create\<close> and \<^verbatim>\<open>pdf.Open\<close> of the library (section 6), as
  the environment of one run: the store each path gives, or \<open>None\<close> where the call
  fails.
\<close>

record env =
  Create :: "string \<rightharpoonup> File"
  Open :: "string \<rightharpoonup> File"

text \<open>
  The steps of a run, in the order in which \<^verbatim>\<open>MergeFiles\<close> does them: the destination is
  created, a source is opened, a source's graph is copied, the page trees are merged, the
  new catalog is installed as \<^verbatim>\<open>Root\<close>, the destination is saved, a source is closed. The
  Go code keeps no such list; the model records it to state the order of the steps.

  The locals of \<^verbatim>\<open>MergeFiles\<close>: \<^verbatim>\<open>merged\<close>, \<^verbatim>\<open>closers\<close> (each handle stands by its path) and
  \<^verbatim>\<open>roots\<close>, and the steps done so far.
\<close>

datatype event =
    Created string
  | Opened string
  | Copied string
  | PageTreesMerged
  | CatalogInstalled
  | Saved
  | Closed string

record locals =
  merged :: File
  closers :: "string list"
  roots :: "ObjectReference list"
  trace :: "event list"

text \<open>
  The loop over \<^verbatim>\<open>sources\<close> (lines 394 to 408). \<open>Returns None\<close> is the end of the loop,
  \<open>Returns (Some err)\<close> a \<^verbatim>\<open>return\<close> from inside it, \<open>Panics\<close> the failed assertion
  \<^verbatim>\<open>root.(pdf.ObjectReference)\<close>.
\<close>

fun sources_loop :: "env \<Rightarrow> locals \<Rightarrow> string list \<Rightarrow> locals \<times> error option outcome" where
  "sources_loop e s [] = (s, Returns None)"
| "sources_loop e s (fn # rest) =
     (case Open e fn of
        None \<Rightarrow> (s, Returns (Some (OpenError fn)))
      | Some file \<Rightarrow>
         (let s1 = s\<lparr>closers := closers s @ [fn], trace := trace s @ [Opened fn]\<rparr> in
          case copyReferencedObjects Map.empty (merged s1) file (Reference (Root file)) of
            (dst, Inl err) \<Rightarrow> (s1\<lparr>merged := dst\<rparr>, Returns (Some err))
          | (dst, Inr (_, root)) \<Rightarrow>
             (case assert_ObjectReference (Some root) of
                None \<Rightarrow>
                  (s1\<lparr>merged := dst, trace := trace s1 @ [Copied fn]\<rparr>,
                   Panics RootNotObjectReference)
              | Some r \<Rightarrow>
                  sources_loop e
                    (s1\<lparr>merged := dst\<lparr>Root := r\<rparr>, roots := roots s1 @ [r],
                        trace := trace s1 @ [Copied fn]\<rparr>)
                    rest)))"

text \<open>The loop that collects the catalogs (lines 411 to 414); \<open>None\<close> is the panic of
  \<^verbatim>\<open>merged.Get(root).(pdf.Dictionary)\<close>.\<close>

fun get_catalogs :: "File \<Rightarrow> ObjectReference list \<Rightarrow> (string \<times> Object) list list option" where
  "get_catalogs m [] = Some []"
| "get_catalogs m (root # rest) =
     (case assert_Dictionary (Some (Get m root)) of
        None \<Rightarrow> None
      | Some catalog \<Rightarrow> map_option ((#) catalog) (get_catalogs m rest))"

text \<open>
  \<^verbatim>\<open>MergeFiles\<close> from the \<^verbatim>\<open>defer\<close> statement on (lines 391 to 431): the final locals, the
  document that \<^verbatim>\<open>Save\<close> wrote (if it did) and how the body ended.
\<close>

definition MergeFiles_body ::
    "env \<Rightarrow> locals \<Rightarrow> string list \<Rightarrow> locals \<times> File option \<times> error option outcome"
where
  "MergeFiles_body e s0 sources =
     (case sources_loop e s0 sources of
        (s, Panics p) \<Rightarrow> (s, None, Panics p)
      | (s, Returns (Some err)) \<Rightarrow> (s, None, Returns (Some err))
      | (s, Returns None) \<Rightarrow>
         (case get_catalogs (merged s) (roots s) of
            None \<Rightarrow> (s, None, Panics CatalogNotDictionary)
          | Some catalogs \<Rightarrow>
             (case mergePageTrees (merged s) catalogs of
                (m1, Panics p) \<Rightarrow> (s\<lparr>merged := m1\<rparr>, None, Panics p)
              | (m1, Returns (pageTreeRef, Some err)) \<Rightarrow>
                  (s\<lparr>merged := m1\<rparr>, None, Returns (Some err))
              | (m1, Returns (pageTreeRef, None)) \<Rightarrow>
                 (case Add m1 (Dictionary [(''Type'', Name ''Catalog''),
                                           (''Pages'', Reference pageTreeRef)]) of
                    (m2, root, Some err) \<Rightarrow>
                      (s\<lparr>merged := m2\<lparr>Root := root\<rparr>, trace := trace s @ [PageTreesMerged]\<rparr>,
                       None, Returns (Some err))
                  | (m2, root, None) \<Rightarrow>
                     (let m3 = m2\<lparr>Root := root\<rparr>;
                          s3 = s\<lparr>merged := m3,
                                 trace := trace s @ [PageTreesMerged, CatalogInstalled]\<rparr>
                      in case Save m3 of
                           Some err \<Rightarrow> (s3, None, Returns (Some err))
                         | None \<Rightarrow>
                             (s3\<lparr>trace := trace s3 @ [Saved]\<rparr>, Some m3, Returns None))))))"

text \<open>
  \<^verbatim>\<open>MergeFiles\<close> (lines 376 to 432). If \<^verbatim>\<open>pdf.Create\<close> fails it returns before the \<^verbatim>\<open>defer\<close>.
  Otherwise the deferred function closes every handle of \<^verbatim>\<open>closers\<close> when the body ends,
  by a \<^verbatim>\<open>return\<close> or by a panic. The result is the steps of the run, the saved document
  and the way \<^verbatim>\<open>MergeFiles\<close> ended.
\<close>

definition MergeFiles ::
    "env \<Rightarrow> string \<Rightarrow> string list \<Rightarrow> event list \<times> File option \<times> error option outcome"
where
  "MergeFiles e dest sources =
     (case Create e dest of
        None \<Rightarrow> ([], None, Returns (Some (CreateError dest)))
      | Some m \<Rightarrow>
         (case MergeFiles_body e
                 \<lparr>merged = m, closers = [], roots = [], trace = [Created dest]\<rparr> sources of
            (s, saved, result) \<Rightarrow> (trace s @ map Closed (closers s), saved, result)))"

subsection \<open>Notions used in the statements\<close>

text \<open>
  \<open>preserves f f'\<close>: every slot of the store \<open>f\<close> is a slot of \<open>f'\<close> and holds the same
  object there.
\<close>

definition preserves :: "File \<Rightarrow> File \<Rightarrow> bool" where
  "preserves f f' \<longleftrightarrow>
     list_all (\<lambda>(r, ob). map_of (objects f') r = map_of (objects f) r) (objects f)"

text \<open>
  \<open>grows refs dst refs' dst'\<close>: the table \<open>refs'\<close> extends \<open>refs\<close>, the store \<open>dst'\<close> has
  every slot of \<open>dst\<close>, and \<open>refs'\<close> maps the references it has beyond \<open>refs\<close> one-to-one
  onto the slots \<open>dst'\<close> has beyond \<open>dst\<close>.
\<close>

definition grows :: "table \<Rightarrow> File \<Rightarrow> table \<Rightarrow> File \<Rightarrow> bool" where
  "grows refs dst refs' dst' \<longleftrightarrow>
     refs \<subseteq>\<^sub>m refs' \<and> keys dst \<subseteq> keys dst' \<and>
     inj_on refs' (dom refs' - dom refs) \<and>
     refs' ` (dom refs' - dom refs) = Some ` (keys dst' - keys dst)"

text \<open>
  Two documents for the examples: the empty store, and a source with a shared object and
  a cycle (object 1 refers to object 2 twice, object 2 refers back to object 1).
\<close>

definition empty_File :: File where
  "empty_File = \<lparr>objects = [], Root = ObjectReference 0 0, add_faults = [], save_fault = False\<rparr>"

definition shared_cyclic :: File where
  "shared_cyclic =
     \<lparr>objects =
        [(ObjectReference 1 0,
          Dictionary [(''A'', Reference (ObjectReference 2 0)), (''B'', Reference (ObjectReference 2 0))]),
         (ObjectReference 2 0, Array [Reference (ObjectReference 1 0), Integer 3])],
      Root = ObjectReference 1 0, add_faults = [], save_fault = False\<rparr>"

text \<open>
  For the page-tree merge. \<open>pages_roots\<close>: the \<^verbatim>\<open>Pages\<close> references of the catalogs, in order.
  \<open>source_count f catalog\<close>: the \<^verbatim>\<open>Count\<close> of the object that the catalog's \<^verbatim>\<open>Pages\<close> names in
  the store \<open>f\<close> (0 where there is none). \<open>well_formed f catalog\<close>: the catalog has a \<^verbatim>\<open>Pages\<close>
  entry that is a reference, and the object it names in \<open>f\<close> is a Dictionary with a \<^verbatim>\<open>Count\<close>
  entry that is an Integer. \<open>parent_of f r\<close>: the \<^verbatim>\<open>Parent\<close> field of the Dictionary in slot
  \<open>r\<close>. \<open>reparents root K f f'\<close>: the store \<open>f'\<close> differs from \<open>f\<close> at most in slots of
  \<open>K\<close> that hold a Dictionary, and there only in the field \<^verbatim>\<open>Parent\<close>, which is \<open>root\<close>.
\<close>

definition pages_roots :: "(string \<times> Object) list list \<Rightarrow> ObjectReference list" where
  "pages_roots catalogs =
     List.map_filter (\<lambda>catalog. assert_ObjectReference (map_of catalog ''Pages'')) catalogs"

definition source_count :: "File \<Rightarrow> (string \<times> Object) list \<Rightarrow> 64 word" where
  "source_count f catalog =
     (case assert_ObjectReference (map_of catalog ''Pages'') of
        None \<Rightarrow> 0
      | Some pagesRef \<Rightarrow>
         (case assert_Dictionary (Some (Get f pagesRef)) of
            None \<Rightarrow> 0
          | Some pages \<Rightarrow>
             (case assert_Integer (map_of pages ''Count'') of None \<Rightarrow> 0 | Some n \<Rightarrow> n)))"

definition well_formed :: "File \<Rightarrow> (string \<times> Object) list \<Rightarrow> bool" where
  "well_formed f catalog =
     (case assert_ObjectReference (map_of catalog ''Pages'') of
        None \<Rightarrow> False
      | Some pagesRef \<Rightarrow>
         (case assert_Dictionary (Some (Get f pagesRef)) of
            None \<Rightarrow> False
          | Some pages \<Rightarrow>
             (case assert_Integer (map_of pages ''Count'') of None \<Rightarrow> False | Some n \<Rightarrow> True)))"

definition parent_of :: "File \<Rightarrow> ObjectReference \<Rightarrow> Object option" where
  "parent_of f r = (case Get f r of Dictionary d \<Rightarrow> map_of d ''Parent'' | _ \<Rightarrow> None)"

definition reparents :: "ObjectReference \<Rightarrow> ObjectReference set \<Rightarrow> File \<Rightarrow> File \<Rightarrow> bool" where
  "reparents root K f f' \<longleftrightarrow>
     (\<forall>r. Get f' r = Get f r \<or>
          (r \<in> K \<and>
           (\<exists>d d'. Get f r = Dictionary d \<and> Get f' r = Dictionary d' \<and>
                    map_of d' = (map_of d)(''Parent'' \<mapsto> Reference root))))"

text \<open>
  Examples for the page-tree merge: a catalog whose \<^verbatim>\<open>Pages\<close> is a given reference, and a
  destination store that holds two page-tree roots, in slots 1 and 2, with given counts.
\<close>

definition catalog_of :: "ObjectReference \<Rightarrow> (string \<times> Object) list" where
  "catalog_of r = [(''Type'', Name ''Catalog''), (''Pages'', Reference r)]"

definition two_roots :: "64 word \<Rightarrow> 64 word \<Rightarrow> File" where
  "two_roots a b =
     \<lparr>objects =
        [(ObjectReference 1 0, Dictionary [(''Type'', Name ''Pages''), (''Count'', Integer a)]),
         (ObjectReference 2 0, Dictionary [(''Type'', Name ''Pages''), (''Count'', Integer b)])],
      Root = ObjectReference 0 0, add_faults = [], save_fault = False\<rparr>"

text \<open>\<open>count_of f r\<close>: the signed value of the \<^verbatim>\<open>Count\<close> field of the Dictionary in slot \<open>r\<close>.\<close>

definition count_of :: "File \<Rightarrow> ObjectReference \<Rightarrow> int option" where
  "count_of f r =
     (case Get f r of
        Dictionary d \<Rightarrow> (case map_of d ''Count'' of Some (Integer n) \<Rightarrow> Some (sint n) | _ \<Rightarrow> None)
      | _ \<Rightarrow> None)"

text \<open>
  For the orchestrator. \<open>opened_of\<close> and \<open>closed_of\<close>: the sources a run has opened, and
  those it has closed, in order. \<open>plan dest sources\<close>: the steps of a run in which nothing
  fails, up to the save: the destination is created; each source in turn is opened and
  then copied; the page trees are merged; the catalog is installed; the destination is
  saved. \<open>opened_before_copied\<close>: no source is opened after a source has been copied.
\<close>

fun opened_of :: "event list \<Rightarrow> string list" where
  "opened_of [] = []"
| "opened_of (Opened fn # es) = fn # opened_of es"
| "opened_of (_ # es) = opened_of es"

fun closed_of :: "event list \<Rightarrow> string list" where
  "closed_of [] = []"
| "closed_of (Closed fn # es) = fn # closed_of es"
| "closed_of (_ # es) = closed_of es"

definition steps_of :: "string list \<Rightarrow> event list" where
  "steps_of sources = concat (map (\<lambda>fn. [Opened fn, Copied fn]) sources)"

definition plan :: "string \<Rightarrow> string list \<Rightarrow> event list" where
  "plan dest sources =
     Created dest # steps_of sources @ [PageTreesMerged, CatalogInstalled, Saved]"

fun is_Opened :: "event \<Rightarrow> bool" where
  "is_Opened (Opened fn) = True"
| "is_Opened _ = False"

fun is_Copied :: "event \<Rightarrow> bool" where
  "is_Copied (Copied fn) = True"
| "is_Copied _ = False"

definition opened_before_copied :: "event list \<Rightarrow> bool" where
  "opened_before_copied tr \<longleftrightarrow> \<not> list_ex is_Opened (dropWhile (\<lambda>ev. \<not> is_Copied ev) tr)"

text \<open>
  A one-page document whose page tree has the given \<^verbatim>\<open>Count\<close>, and an environment with an
  empty destination \<^verbatim>\<open>out.pdf\<close> and two such sources, \<^verbatim>\<open>a.pdf\<close> with count 3 and \<^verbatim>\<open>b.pdf\<close>
  with count 5.
\<close>

definition page_doc :: "64 word \<Rightarrow> File" where
  "page_doc n =
     \<lparr>objects =
        [(ObjectReference 1 0,
          Dictionary [(''Type'', Name ''Catalog''), (''Pages'', Reference (ObjectReference 2 0))]),
         (ObjectReference 2 0,
          Dictionary [(''Type'', Name ''Pages''), (''Kids'', Array [Reference (ObjectReference 3 0)]),
                      (''Count'', Integer n)]),
         (ObjectReference 3 0,
          Dictionary [(''Type'', Name ''Page''), (''Parent'', Reference (ObjectReference 2 0))])],
      Root = ObjectReference 1 0, add_faults = [], save_fault = False\<rparr>"

definition two_sources :: env where
  "two_sources =
     \<lparr>Create = [''out.pdf'' \<mapsto> empty_File],
      Open = [''a.pdf'' \<mapsto> page_doc 3, ''b.pdf'' \<mapsto> page_doc 5]\<rparr>"

text \<open>
  A one-page source whose catalog has an entry with the null object
  (\<^verbatim>\<open>/OpenAction null\<close>), and an environment in which it is \<^verbatim>\<open>a.pdf\<close>.
\<close>

definition null_entry_doc :: File where
  "null_entry_doc =
     \<lparr>objects =
        [(ObjectReference 1 0,
          Dictionary [(''Type'', Name ''Catalog''), (''OpenAction'', Null),
                      (''Pages'', Reference (ObjectReference 2 0))]),
         (ObjectReference 2 0,
          Dictionary [(''Type'', Name ''Pages''), (''Kids'', Array [Reference (ObjectReference 3 0)]),
                      (''Count'', Integer 1)]),
         (ObjectReference 3 0,
          Dictionary [(''Type'', Name ''Page''), (''Parent'', Reference (ObjectReference 2 0))])],
      Root = ObjectReference 1 0, add_faults = [], save_fault = False\<rparr>"

definition null_entry_source :: env where
  "null_entry_source =
     \<lparr>Create = [''out.pdf'' \<mapsto> empty_File], Open = [''a.pdf'' \<mapsto> null_entry_doc]\<rparr>"

section \<open>Lemmas\<close>

subsection \<open>The store\<close>

lemma fold_max_ge: "a \<le> fold max xs (a::nat)"
  by (induction xs arbitrary: a) (auto intro: order_trans[OF max.cobounded2])

lemma fold_max_mem: "x \<in> set xs \<Longrightarrow> x \<le> fold max xs (a::nat)"
proof (induction xs arbitrary: a)
  case Nil
  then show ?case by simp
next
  case (Cons y ys)
  show ?case
  proof (cases "x = y")
    case True
    have "max y a \<le> fold max ys (max y a)" by (rule fold_max_ge)
    with True show ?thesis by simp
  next
    case False
    with Cons show ?thesis by simp
  qed
qed

lemma free_reference_fresh: "free_reference f \<notin> keys f"
proof
  assume "free_reference f \<in> keys f"
  then obtain ob where "(free_reference f, ob) \<in> set (objects f)"
    by (auto simp: keys_def)
  then have "ObjectNumber (free_reference f) \<in> set (map (ObjectNumber \<circ> fst) (objects f))"
    by force
  then have "ObjectNumber (free_reference f) \<le> fold max (map (ObjectNumber \<circ> fst) (objects f)) 0"
    by (rule fold_max_mem)
  then show False by (simp add: free_reference_def)
qed

lemma keys_update: "fst ` set (AList.update k v al) = insert k (fst ` set al)"
  using dom_update[of k v al] by (simp add: dom_map_of_conv_image_fst)

lemma Add_failed:
  "Add f obj = (f', r, Some e) \<Longrightarrow> objects f' = objects f \<and> Root f' = Root f \<and> e = AddError"
  by (auto simp: Add_def split: list.splits bool.splits Object.splits)

lemma Add_indirect:
  "Add f (IndirectObject r0 ob) = (f', r, None) \<Longrightarrow>
     r = r0 \<and> objects f' = AList.update r0 ob (objects f) \<and> Root f' = Root f"
  by (auto simp: Add_def split: list.splits bool.splits)

lemma Add_direct:
  "Add f obj = (f', r, None) \<Longrightarrow> (\<And>r0 ob. obj \<noteq> IndirectObject r0 ob) \<Longrightarrow>
     r = free_reference f \<and> objects f' = AList.update (free_reference f) obj (objects f) \<and>
     Root f' = Root f"
  by (cases obj) (auto simp: Add_def split: list.splits bool.splits)

subsection \<open>Stores and tables that grow\<close>

lemma preserves_iff:
  "preserves f f' \<longleftrightarrow> (\<forall>r \<in> keys f. map_of (objects f') r = map_of (objects f) r)"
  by (auto simp: preserves_def keys_def list_all_iff)

lemma preserves_keys: "preserves f f' \<Longrightarrow> keys f \<subseteq> keys f'"
proof
  fix r assume p: "preserves f f'" and r: "r \<in> keys f"
  then have "map_of (objects f') r = map_of (objects f) r" by (simp add: preserves_iff)
  moreover from r have "map_of (objects f) r \<noteq> None"
    by (simp add: keys_def map_of_eq_None_iff)
  ultimately have "map_of (objects f') r \<noteq> None" by simp
  then show "r \<in> keys f'" by (simp add: keys_def map_of_eq_None_iff)
qed

lemma preserves_refl: "preserves f f"
  by (simp add: preserves_iff)

lemma preserves_trans:
  assumes "preserves f f1" "preserves f1 f2"
  shows "preserves f f2"
  unfolding preserves_iff
proof
  fix r assume r: "r \<in> keys f"
  with assms(1) have "r \<in> keys f1" using preserves_keys by blast
  with assms(2) have "map_of (objects f2) r = map_of (objects f1) r" by (simp add: preserves_iff)
  also from assms(1) r have "\<dots> = map_of (objects f) r" by (simp add: preserves_iff)
  finally show "map_of (objects f2) r = map_of (objects f) r" .
qed

lemma preserves_same_objects: "objects f' = objects f \<Longrightarrow> preserves f f'"
  by (simp add: preserves_iff)

lemma preserves_update:
  assumes "r \<notin> keys f" "objects f' = AList.update r ob (objects f1)" "preserves f f1"
  shows "preserves f f'"
  unfolding preserves_iff
proof
  fix r' assume r': "r' \<in> keys f"
  with assms(1) have "r' \<noteq> r" by auto
  then have "map_of (objects f') r' = map_of (objects f1) r'"
    by (simp add: assms(2) update_conv')
  also from assms(3) r' have "\<dots> = map_of (objects f) r'" by (simp add: preserves_iff)
  finally show "map_of (objects f') r' = map_of (objects f) r'" .
qed

lemma keys_after_update:
  "objects f' = AList.update r ob (objects f) \<Longrightarrow> keys f' = insert r (keys f)"
  by (simp add: keys_def keys_update)

lemma grows_refl: "grows refs dst refs dst"
  by (simp add: grows_def)

lemma grows_step:
  assumes "refs t = None" "r \<notin> keys dst" "keys dst1 = insert r (keys dst)"
  shows "grows refs dst (refs(t \<mapsto> r)) dst1"
proof -
  from assms(1) have d: "dom (refs(t \<mapsto> r)) - dom refs = {t}" by auto
  from assms(2,3) have k: "keys dst1 - keys dst = {r}" by auto
  have "refs \<subseteq>\<^sub>m refs(t \<mapsto> r)"
    unfolding map_le_def
  proof
    fix a assume "a \<in> dom refs"
    with assms(1) have "a \<noteq> t" by auto
    then show "refs a = (refs(t \<mapsto> r)) a" by simp
  qed
  moreover have "keys dst \<subseteq> keys dst1" using assms(3) by auto
  ultimately show ?thesis unfolding grows_def d k by simp
qed

lemma grows_trans:
  assumes a: "grows refs dst refs1 dst1" and b: "grows refs1 dst1 refs2 dst2"
  shows "grows refs dst refs2 dst2"
proof -
  let ?N1 = "dom refs1 - dom refs" and ?N2 = "dom refs2 - dom refs1"
  let ?S1 = "keys dst1 - keys dst" and ?S2 = "keys dst2 - keys dst1"
  from a have le1: "refs \<subseteq>\<^sub>m refs1" and ks1: "keys dst \<subseteq> keys dst1"
    and inj1: "inj_on refs1 ?N1" and im1: "refs1 ` ?N1 = Some ` ?S1"
    by (simp_all only: grows_def)
  from b have le2: "refs1 \<subseteq>\<^sub>m refs2" and ks2: "keys dst1 \<subseteq> keys dst2"
    and inj2: "inj_on refs2 ?N2" and im2: "refs2 ` ?N2 = Some ` ?S2"
    by (simp_all only: grows_def)
  have dm1: "dom refs \<subseteq> dom refs1" using le1 by (rule map_le_implies_dom_le)
  have dm2: "dom refs1 \<subseteq> dom refs2" using le2 by (rule map_le_implies_dom_le)
  have agree: "refs2 x = refs1 x" if "x \<in> ?N1" for x
  proof -
    from that have "x \<in> dom refs1" by (rule DiffD1)
    moreover from le2 have "\<forall>a\<in>dom refs1. refs1 a = refs2 a" by (simp only: map_le_def)
    ultimately have "refs1 x = refs2 x" by (rule bspec[rotated])
    then show ?thesis by (rule sym)
  qed
  have N: "dom refs2 - dom refs = ?N1 \<union> ?N2" using dm1 dm2 by blast
  have S: "keys dst2 - keys dst = ?S1 \<union> ?S2" using ks1 ks2 by blast
  have "refs2 ` ?N1 = refs1 ` ?N1" by (rule image_cong[OF refl]) (rule agree)
  with im1 have i1: "refs2 ` ?N1 = Some ` ?S1" by (rule ssubst[rotated])
  have "inj_on refs2 ?N1 \<longleftrightarrow> inj_on refs1 ?N1" by (rule inj_on_cong) (rule agree)
  with inj1 have inj1': "inj_on refs2 ?N1" by (rule iffD2[rotated])
  have disj: "refs2 ` (?N1 - ?N2) \<inter> refs2 ` (?N2 - ?N1) = {}"
  proof (rule ccontr)
    assume "refs2 ` (?N1 - ?N2) \<inter> refs2 ` (?N2 - ?N1) \<noteq> {}"
    then obtain y where y1: "y \<in> refs2 ` ?N1" and y2: "y \<in> refs2 ` ?N2" by blast
    from y1 i1 obtain s1 where s1: "y = Some s1" "s1 \<in> ?S1" by blast
    from y2 im2 obtain s2 where s2: "y = Some s2" "s2 \<in> ?S2" by blast
    from s1(1) s2(1) have "s1 = s2" by simp
    with s1(2) s2(2) show False by blast
  qed
  have "inj_on refs2 (?N1 \<union> ?N2)"
    unfolding inj_on_Un using inj1' inj2 disj by (intro conjI)
  moreover have "refs2 ` (?N1 \<union> ?N2) = Some ` (?S1 \<union> ?S2)"
    unfolding image_Un i1 im2 ..
  moreover have "refs \<subseteq>\<^sub>m refs2" using le1 le2 by (rule map_le_trans)
  moreover have "keys dst \<subseteq> keys dst2" using ks1 ks2 by (rule subset_trans)
  ultimately show ?thesis unfolding grows_def N S by (intro conjI)
qed

subsection \<open>What a copy leaves behind\<close>

lemma copy_grows:
  "copyReferencedObjects refs dst src obj = (dst', Inr (refs', obj')) \<Longrightarrow> grows refs dst refs' dst'"
  "copy_dict refs dst src d = (dst', Inr (refs', d')) \<Longrightarrow> grows refs dst refs' dst'"
  "copy_array refs dst src a = (dst', Inr (refs', a')) \<Longrightarrow> grows refs dst refs' dst'"
proof (induct refs dst src obj and refs dst src d and refs dst src a
    arbitrary: dst' refs' obj' and dst' refs' d' and dst' refs' a'
    rule: copyReferencedObjects_copy_dict_copy_array.induct)
  case (1 refs dst src t)
  show ?case
  proof (cases "refs t")
    case (Some r)
    with 1(2) show ?thesis by (simp add: grows_refl)
  next
    case None
    obtain dst1 ref e1 where add1': "Add dst Null = (dst1, ref, e1)"
      by (cases "Add dst Null") auto
    obtain dst2 res2 where rec': "copyReferencedObjects (refs(t \<mapsto> ref)) dst1 src (Get src t) = (dst2, res2)"
      by (cases "copyReferencedObjects (refs(t \<mapsto> ref)) dst1 src (Get src t)") auto
    from 1(2) None add1' rec' obtain newRefs newObj where
      e1: "e1 = None" and res2: "res2 = Inr (newRefs, newObj)"
      by (cases e1; cases res2) auto
    obtain dst3 ref' e3 where add2': "Add dst2 (IndirectObject ref newObj) = (dst3, ref', e3)"
      by (cases "Add dst2 (IndirectObject ref newObj)") auto
    from 1(2) None add1' rec' e1 res2 add2' have
      e3: "e3 = None" and d3: "dst3 = dst'" and res: "refs' = newRefs(t \<mapsto> ref')"
      by (cases e3; simp)+
    note add1 = add1'[unfolded e1] and rec = rec'[unfolded res2] and add2 = add2'[unfolded e3 d3]
    from add1 have r1: "ref = free_reference dst" "objects dst1 = AList.update ref Null (objects dst)"
      using Add_direct[OF add1] by auto
    from add2 have r2: "ref' = ref" "objects dst' = AList.update ref newObj (objects dst2)"
      using Add_indirect[OF add2] by auto
    have g1: "grows refs dst (refs(t \<mapsto> ref)) dst1"
      using None r1 free_reference_fresh[of dst] by (intro grows_step keys_after_update) auto
    have g2: "grows (refs(t \<mapsto> ref)) dst1 newRefs dst2"
      by (rule 1(1)[OF None add1[symmetric] refl refl rec])
    then have "refs(t \<mapsto> ref) \<subseteq>\<^sub>m newRefs" and "keys dst1 \<subseteq> keys dst2"
      by (simp_all add: grows_def)
    then have "newRefs t = Some ref" and "ref \<in> keys dst2"
      using keys_after_update[OF r1(2)] by (auto simp: map_le_def)
    then have "refs' = newRefs" and "keys dst' = keys dst2"
      using res r2 keys_after_update[OF r2(2)] by auto
    with grows_trans[OF g1 g2] show ?thesis by (simp add: grows_def)
  qed
next
  case (12 refs dst src k v rest)
  from 12(3) obtain dst1 newRefs v' rest' where
    c1: "copyReferencedObjects refs dst src v = (dst1, Inr (newRefs, v'))" and
    c2: "copy_dict newRefs dst1 src rest = (dst', Inr (refs', rest'))"
    by (auto split: prod.splits sum.splits)
  from 12(1)[OF c1] 12(2)[OF c1[symmetric] refl refl] c2 show ?case
    by (auto intro: grows_trans)
next
  case (14 refs dst src v rest)
  from 14(3) obtain dst1 newRefs v' rest' where
    c1: "copyReferencedObjects refs dst src v = (dst1, Inr (newRefs, v'))" and
    c2: "copy_array newRefs dst1 src rest = (dst', Inr (refs', rest'))"
    by (auto split: prod.splits sum.splits)
  from 14(1)[OF c1] 14(2)[OF c1[symmetric] refl refl] c2 show ?case
    by (auto intro: grows_trans)
qed (auto simp: grows_refl split: prod.splits sum.splits)

lemma preserves_objects_eq: "preserves f f1 \<Longrightarrow> objects f2 = objects f1 \<Longrightarrow> preserves f f2"
  by (simp add: preserves_iff)

lemma copy_preserves:
  "preserves dst (fst (copyReferencedObjects refs dst src obj))"
  "preserves dst (fst (copy_dict refs dst src d))"
  "preserves dst (fst (copy_array refs dst src a))"
proof (induct refs dst src obj and refs dst src d and refs dst src a
    rule: copyReferencedObjects_copy_dict_copy_array.induct)
  case (1 refs dst src t)
  show ?case
  proof (cases "refs t")
    case (Some r)
    then show ?thesis by (simp add: preserves_refl)
  next
    case None
    obtain dst1 ref e1 where add1: "Add dst Null = (dst1, ref, e1)"
      by (cases "Add dst Null") auto
    show ?thesis
    proof (cases e1)
      case (Some err)
      with add1 None show ?thesis
        using Add_failed[of dst Null dst1 ref err] by (simp add: preserves_same_objects)
    next
      case e1: None
      from add1 e1 have r1: "ref = free_reference dst"
          "objects dst1 = AList.update ref Null (objects dst)"
        using Add_direct[of dst Null dst1 ref] by auto
      have fresh: "ref \<notin> keys dst" unfolding r1(1) by (rule free_reference_fresh)
      have p1: "preserves dst dst1"
        using fresh r1(2) preserves_refl by (rule preserves_update)
      obtain dst2 res2 where
        rec: "copyReferencedObjects (refs(t \<mapsto> ref)) dst1 src (Get src t) = (dst2, res2)"
        by (cases "copyReferencedObjects (refs(t \<mapsto> ref)) dst1 src (Get src t)") auto
      have "preserves dst1 (fst (copyReferencedObjects (refs(t \<mapsto> ref)) dst1 src (Get src t)))"
        using add1 e1 by (intro 1[OF None _ refl]) simp_all
      with rec have "preserves dst1 dst2" by simp
      with p1 have p2: "preserves dst dst2" by (rule preserves_trans)
      show ?thesis
      proof (cases res2)
        case (Inl copyErr)
        with None add1 e1 rec p2 show ?thesis by simp
      next
        case (Inr b)
        obtain newRefs newObj where b: "b = (newRefs, newObj)" by (cases b) auto
        obtain dst3 ref' e3 where add2: "Add dst2 (IndirectObject ref newObj) = (dst3, ref', e3)"
          by (cases "Add dst2 (IndirectObject ref newObj)") auto
        have "preserves dst dst3"
        proof (cases e3)
          case None
          with add2 have "objects dst3 = AList.update ref newObj (objects dst2)"
            using Add_indirect[of dst2 ref newObj dst3 ref'] by simp
          with fresh show ?thesis using p2 by (rule preserves_update)
        next
          case (Some err)
          with add2 have "objects dst3 = objects dst2"
            using Add_failed[of dst2 "IndirectObject ref newObj" dst3 ref' err] by simp
          with p2 show ?thesis by (rule preserves_objects_eq)
        qed
        with None add1 e1 rec Inr b add2 show ?thesis by (cases e3) simp_all
      qed
    qed
  qed
next
  case (12 refs dst src k v rest)
  obtain dst1 res1 where c1: "copyReferencedObjects refs dst src v = (dst1, res1)"
    by (cases "copyReferencedObjects refs dst src v") auto
  with 12(1) have p1: "preserves dst dst1" by simp
  show ?case
  proof (cases res1)
    case (Inl err)
    with c1 p1 show ?thesis by simp
  next
    case (Inr b)
    obtain newRefs v' where b: "b = (newRefs, v')" by (cases b) auto
    have "preserves dst1 (fst (copy_dict (merge newRefs newRefs) dst1 src rest))"
      using c1 Inr b by (intro 12(2)) simp_all
    with p1 have "preserves dst (fst (copy_dict newRefs dst1 src rest))"
      by (simp add: preserves_trans)
    with c1 Inr b show ?thesis by (auto split: prod.splits sum.splits)
  qed
next
  case (14 refs dst src v rest)
  obtain dst1 res1 where c1: "copyReferencedObjects refs dst src v = (dst1, res1)"
    by (cases "copyReferencedObjects refs dst src v") auto
  with 14(1) have p1: "preserves dst dst1" by simp
  show ?case
  proof (cases res1)
    case (Inl err)
    with c1 p1 show ?thesis by simp
  next
    case (Inr b)
    obtain newRefs v' where b: "b = (newRefs, v')" by (cases b) auto
    have "preserves dst1 (fst (copy_array (merge newRefs newRefs) dst1 src rest))"
      using c1 Inr b by (intro 14(2)) simp_all
    with p1 have "preserves dst (fst (copy_array newRefs dst1 src rest))"
      by (simp add: preserves_trans)
    with c1 Inr b show ?thesis by (auto split: prod.splits sum.splits)
  qed
qed (auto simp: preserves_refl split: prod.splits sum.splits)

lemma grows_bij:
  assumes "grows refs dst refs' dst'"
  shows "bij_betw (\<lambda>t. the (refs' t)) (dom refs' - dom refs) (keys dst' - keys dst)"
proof -
  let ?N = "dom refs' - dom refs" and ?S = "keys dst' - keys dst"
  from assms have inj: "inj_on refs' ?N" and im: "refs' ` ?N = Some ` ?S"
    by (simp_all only: grows_def)
  have "inj_on (\<lambda>t. the (refs' t)) ?N"
  proof (rule inj_onI)
    fix x y assume x: "x \<in> ?N" and y: "y \<in> ?N" and eq: "the (refs' x) = the (refs' y)"
    from x y obtain a b where "refs' x = Some a" "refs' y = Some b" by auto
    with eq have "refs' x = refs' y" by simp
    with inj show "x = y" using x y by (rule inj_onD)
  qed
  moreover have "(\<lambda>t. the (refs' t)) ` ?N = ?S"
  proof -
    have "(\<lambda>t. the (refs' t)) ` ?N = the ` (refs' ` ?N)" by (simp add: image_image)
    also have "\<dots> = the ` Some ` ?S" by (simp only: im)
    also have "\<dots> = ?S" by (simp add: image_image)
    finally show ?thesis .
  qed
  ultimately show ?thesis by (simp only: bij_betw_def)
qed

lemma grows_new_slot:
  assumes "grows refs dst refs' dst'" and "refs t = None" and "refs' t = Some r"
  shows "r \<in> keys dst' - keys dst"
proof -
  from assms(1) have im: "refs' ` (dom refs' - dom refs) = Some ` (keys dst' - keys dst)"
    by (simp only: grows_def)
  from assms(2,3) have "t \<in> dom refs' - dom refs" by auto
  then have "refs' t \<in> refs' ` (dom refs' - dom refs)" by (rule imageI)
  with im assms(3) have "Some r \<in> Some ` (keys dst' - keys dst)" by simp
  then show ?thesis by auto
qed

lemma grows_ran:
  assumes g: "grows refs dst refs' dst'" and ran: "ran refs \<subseteq> keys dst"
  shows "ran refs' \<subseteq> keys dst'"
proof
  fix r assume "r \<in> ran refs'"
  then obtain x where x: "refs' x = Some r" by (auto simp: ran_def)
  from g have le: "refs \<subseteq>\<^sub>m refs'" and ks: "keys dst \<subseteq> keys dst'" by (simp_all only: grows_def)
  show "r \<in> keys dst'"
  proof (cases "refs x")
    case None
    with g have "r \<in> keys dst' - keys dst" using x by (rule grows_new_slot)
    then show ?thesis by simp
  next
    case (Some r0)
    with le have "refs' x = Some r0" by (auto simp: map_le_def dom_def)
    with x have "r0 = r" by simp
    with Some have "r \<in> ran refs" by (auto simp: ran_def)
    with ran ks show ?thesis by blast
  qed
qed


subsection \<open>The page-tree merge\<close>

lemma reparents_refl: "reparents root K f f"
  by (simp add: reparents_def)

lemma reparents_mono: "reparents root K f f' \<Longrightarrow> K \<subseteq> K' \<Longrightarrow> reparents root K' f f'"
  unfolding reparents_def by blast

lemma reparents_trans:
  assumes a: "reparents root K1 f f1" and b: "reparents root K2 f1 f2"
  shows "reparents root (K1 \<union> K2) f f2"
  unfolding reparents_def
proof
  fix r
  let ?goal = "Get f2 r = Get f r \<or>
          (r \<in> K1 \<union> K2 \<and>
           (\<exists>d d'. Get f r = Dictionary d \<and> Get f2 r = Dictionary d' \<and>
                    map_of d' = (map_of d)(''Parent'' \<mapsto> Reference root)))"
  from a have a': "Get f1 r = Get f r \<or>
          (r \<in> K1 \<and>
           (\<exists>d d'. Get f r = Dictionary d \<and> Get f1 r = Dictionary d' \<and>
                    map_of d' = (map_of d)(''Parent'' \<mapsto> Reference root)))"
    unfolding reparents_def by (rule spec)
  from b have b': "Get f2 r = Get f1 r \<or>
          (r \<in> K2 \<and>
           (\<exists>d d'. Get f1 r = Dictionary d \<and> Get f2 r = Dictionary d' \<and>
                    map_of d' = (map_of d)(''Parent'' \<mapsto> Reference root)))"
    unfolding reparents_def by (rule spec)
  show ?goal
  proof (cases "Get f1 r = Get f r")
    case True
    with b' show ?thesis by auto
  next
    case False
    with a' obtain d d1 where k1: "r \<in> K1" and d: "Get f r = Dictionary d"
      and d1: "Get f1 r = Dictionary d1"
      and m1: "map_of d1 = (map_of d)(''Parent'' \<mapsto> Reference root)" by blast
    show ?thesis
    proof (cases "Get f2 r = Get f1 r")
      case True
      with k1 d d1 m1 show ?thesis by auto
    next
      case False
      with b' obtain e e2 where e: "Get f1 r = Dictionary e" and e2: "Get f2 r = Dictionary e2"
        and m2: "map_of e2 = (map_of e)(''Parent'' \<mapsto> Reference root)" by blast
      from e d1 have "e = d1" by simp
      with m1 m2 have "map_of e2 = (map_of d)(''Parent'' \<mapsto> Reference root)" by simp
      with k1 d e2 show ?thesis by auto
    qed
  qed
qed

lemma Get_update_other:
  "objects f' = AList.update r ob (objects f) \<Longrightarrow> r' \<noteq> r \<Longrightarrow> Get f' r' = Get f r'"
  by (simp add: Get_def update_conv')

lemma Get_update_same:
  "objects f' = AList.update r ob (objects f) \<Longrightarrow> Get f' r = ob"
  by (simp add: Get_def update_conv')

lemma reparents_step:
  assumes "Get f r = Dictionary d"
    and "objects f1 = AList.update r (Dictionary (AList.update ''Parent'' (Reference root) d)) (objects f)"
  shows "reparents root {r} f f1"
  unfolding reparents_def
proof
  fix r'
  show "Get f1 r' = Get f r' \<or>
          (r' \<in> {r} \<and>
           (\<exists>d d'. Get f r' = Dictionary d \<and> Get f1 r' = Dictionary d' \<and>
                    map_of d' = (map_of d)(''Parent'' \<mapsto> Reference root)))"
  proof (cases "r' = r")
    case True
    have "Get f1 r = Dictionary (AList.update ''Parent'' (Reference root) d)"
      using assms(2) by (rule Get_update_same)
    with True assms(1) show ?thesis by (auto simp: update_conv')
  next
    case False
    with assms(2) have "Get f1 r' = Get f r'" by (rule Get_update_other)
    then show ?thesis by simp
  qed
qed

lemma reparents_Null:
  assumes "reparents root K f f'" and "Get f r = Null"
  shows "Get f' r = Null"
proof -
  from assms(1) have "Get f' r = Get f r \<or> (\<exists>d. Get f r = Dictionary d)"
    unfolding reparents_def by blast
  with assms(2) show ?thesis by auto
qed

lemma reparents_source_count:
  assumes "reparents root K f f'"
  shows "source_count f' c = source_count f c"
proof (cases "assert_ObjectReference (map_of c ''Pages'')")
  case None
  then show ?thesis by (simp add: source_count_def)
next
  case (Some pr)
  from assms have "Get f' pr = Get f pr \<or>
      (\<exists>d d'. Get f pr = Dictionary d \<and> Get f' pr = Dictionary d' \<and>
               map_of d' = (map_of d)(''Parent'' \<mapsto> Reference root))"
    unfolding reparents_def by blast
  then show ?thesis
  proof
    assume "Get f' pr = Get f pr"
    with Some show ?thesis by (simp add: source_count_def)
  next
    assume "\<exists>d d'. Get f pr = Dictionary d \<and> Get f' pr = Dictionary d' \<and>
               map_of d' = (map_of d)(''Parent'' \<mapsto> Reference root)"
    then obtain d d' where "Get f pr = Dictionary d" "Get f' pr = Dictionary d'"
      "map_of d' = (map_of d)(''Parent'' \<mapsto> Reference root)" by blast
    with Some show ?thesis by (simp add: source_count_def)
  qed
qed

lemma reparents_well_formed:
  assumes "reparents root K f f'"
  shows "well_formed f' c = well_formed f c"
proof (cases "assert_ObjectReference (map_of c ''Pages'')")
  case None
  then show ?thesis by (simp add: well_formed_def)
next
  case (Some pr)
  from assms have "Get f' pr = Get f pr \<or>
      (\<exists>d d'. Get f pr = Dictionary d \<and> Get f' pr = Dictionary d' \<and>
               map_of d' = (map_of d)(''Parent'' \<mapsto> Reference root))"
    unfolding reparents_def by blast
  then show ?thesis
  proof
    assume "Get f' pr = Get f pr"
    with Some show ?thesis by (simp add: well_formed_def)
  next
    assume "\<exists>d d'. Get f pr = Dictionary d \<and> Get f' pr = Dictionary d' \<and>
               map_of d' = (map_of d)(''Parent'' \<mapsto> Reference root)"
    then obtain d d' where "Get f pr = Dictionary d" "Get f' pr = Dictionary d'"
      "map_of d' = (map_of d)(''Parent'' \<mapsto> Reference root)" by blast
    with Some show ?thesis by (simp add: well_formed_def)
  qed
qed

lemma reparents_parent:
  assumes "reparents root K f f'" and "parent_of f r = Some (Reference root)"
  shows "parent_of f' r = Some (Reference root)"
proof -
  from assms(1) have "Get f' r = Get f r \<or>
      (\<exists>d d'. Get f r = Dictionary d \<and> Get f' r = Dictionary d' \<and>
               map_of d' = (map_of d)(''Parent'' \<mapsto> Reference root))"
    unfolding reparents_def by blast
  then show ?thesis
  proof
    assume "Get f' r = Get f r"
    with assms(2) show ?thesis by (simp add: parent_of_def)
  next
    assume "\<exists>d d'. Get f r = Dictionary d \<and> Get f' r = Dictionary d' \<and>
               map_of d' = (map_of d)(''Parent'' \<mapsto> Reference root)"
    then obtain d d' where "Get f' r = Dictionary d'"
      "map_of d' = (map_of d)(''Parent'' \<mapsto> Reference root)" by blast
    then show ?thesis by (simp add: parent_of_def)
  qed
qed

lemma assert_Dictionary_Some:
  "assert_Dictionary x = Some d \<longleftrightarrow> x = Some (Dictionary d)"
  by (cases x rule: assert_Dictionary.cases) auto

lemma Count_after_Parent:
  "map_of (AList.update ''Parent'' v d) ''Count'' = map_of d ''Count''"
  by (simp add: update_conv')

lemma mergePageTrees_loop_Cons:
  assumes "mergePageTrees_loop f root kids cnt (c # rest) = (f', out)"
  obtains
    (no_pages) "assert_ObjectReference (map_of c ''Pages'') = None"
      "f' = f" "out = Panics PagesNotObjectReference"
  | (no_dict) pr where "assert_ObjectReference (map_of c ''Pages'') = Some pr"
      "assert_Dictionary (Some (Get f pr)) = None"
      "f' = f" "out = Panics PagesNotDictionary"
  | (add_fails) pr d0 x err where "assert_ObjectReference (map_of c ''Pages'') = Some pr"
      "Get f pr = Dictionary d0"
      "Add f (IndirectObject pr (Dictionary (AList.update ''Parent'' (Reference root) d0))) =
         (f', x, Some err)"
      "out = Returns (kids @ [Reference pr], cnt, Some err)"
  | (no_count) pr d0 x where "assert_ObjectReference (map_of c ''Pages'') = Some pr"
      "Get f pr = Dictionary d0"
      "Add f (IndirectObject pr (Dictionary (AList.update ''Parent'' (Reference root) d0))) =
         (f', x, None)"
      "assert_Integer (map_of d0 ''Count'') = None"
      "out = Panics CountNotInteger"
  | (continue) pr d0 f1 x n where "assert_ObjectReference (map_of c ''Pages'') = Some pr"
      "Get f pr = Dictionary d0"
      "Add f (IndirectObject pr (Dictionary (AList.update ''Parent'' (Reference root) d0))) =
         (f1, x, None)"
      "assert_Integer (map_of d0 ''Count'') = Some n"
      "mergePageTrees_loop f1 root (kids @ [Reference pr]) (cnt + n) rest = (f', out)"
proof (cases "assert_ObjectReference (map_of c ''Pages'')")
  case None
  with assms have "f' = f" "out = Panics PagesNotObjectReference" by simp_all
  with None show ?thesis by (rule no_pages)
next
  case (Some pr)
  note pr = this
  show ?thesis
  proof (cases "assert_Dictionary (Some (Get f pr))")
    case None
    with assms pr have "f' = f" "out = Panics PagesNotDictionary" by simp_all
    with pr None show ?thesis by (rule no_dict)
  next
    case (Some d0)
    then have d0: "Get f pr = Dictionary d0" by (simp add: assert_Dictionary_Some)
    obtain f1 x e where
      add: "Add f (IndirectObject pr (Dictionary (AList.update ''Parent'' (Reference root) d0))) =
         (f1, x, e)"
      by (cases "Add f (IndirectObject pr (Dictionary (AList.update ''Parent'' (Reference root) d0)))")
        auto
    show ?thesis
    proof (cases e)
      case (Some err)
      with assms pr d0 add have *: "f' = f1" "out = Returns (kids @ [Reference pr], cnt, Some err)"
        by simp_all
      from add Some *(1) have
        "Add f (IndirectObject pr (Dictionary (AList.update ''Parent'' (Reference root) d0))) =
         (f', x, Some err)" by simp
      with pr d0 show ?thesis using *(2) by (rule add_fails)
    next
      case None
      note e = this
      show ?thesis
      proof (cases "assert_Integer (map_of d0 ''Count'')")
        case None
        with assms pr d0 add e have *: "f' = f1" "out = Panics CountNotInteger"
          by (simp_all add: Count_after_Parent)
        from add e *(1) have
          "Add f (IndirectObject pr (Dictionary (AList.update ''Parent'' (Reference root) d0))) =
           (f', x, None)" by simp
        with pr d0 show ?thesis using None *(2) by (rule no_count)
      next
        case (Some n)
        with assms pr d0 add e have *:
          "mergePageTrees_loop f1 root (kids @ [Reference pr]) (cnt + n) rest = (f', out)"
          by (simp add: Count_after_Parent)
        from add e have
          "Add f (IndirectObject pr (Dictionary (AList.update ''Parent'' (Reference root) d0))) =
           (f1, x, None)" by simp
        with pr d0 show ?thesis using Some * by (rule continue)
      qed
    qed
  qed
qed

lemma Get_same_objects: "objects f' = objects f \<Longrightarrow> Get f' r = Get f r"
  by (simp add: Get_def)

lemma reparents_same_objects: "objects f' = objects f \<Longrightarrow> reparents root K f f'"
  by (simp add: reparents_def Get_def)

lemma pages_roots_Cons:
  "assert_ObjectReference (map_of c ''Pages'') = Some pr \<Longrightarrow>
     pages_roots (c # rest) = pr # pages_roots rest"
  by (simp add: pages_roots_def map_filter_simps)

lemma loop_reparents:
  "mergePageTrees_loop f root kids cnt cs = (f', out) \<Longrightarrow> Get f root = Null \<Longrightarrow>
     reparents root (set (pages_roots cs)) f f' \<and> Get f' root = Null"
proof (induction cs arbitrary: f kids cnt)
  case Nil
  then show ?case by (simp add: reparents_refl)
next
  case (Cons c rest)
  from Cons.prems(1) show ?case
  proof (cases rule: mergePageTrees_loop_Cons)
    case no_pages
    with Cons.prems(2) show ?thesis by (simp add: reparents_refl)
  next
    case (no_dict pr)
    with Cons.prems(2) show ?thesis by (simp add: reparents_refl)
  next
    case (add_fails pr d0 x err)
    from Add_failed[OF add_fails(3)] have same: "objects f' = objects f" by simp
    then have "reparents root (set (pages_roots (c # rest))) f f'"
      by (rule reparents_same_objects)
    moreover from same have "Get f' root = Get f root" by (rule Get_same_objects)
    ultimately show ?thesis using Cons.prems(2) by simp
  next
    case (no_count pr d0 x)
    from Add_indirect[OF no_count(3)] have
      "objects f' = AList.update pr (Dictionary (AList.update ''Parent'' (Reference root) d0)) (objects f)"
      by simp
    with no_count(2) have "reparents root {pr} f f'" by (rule reparents_step)
    then have "reparents root (set (pages_roots (c # rest))) f f'"
      by (rule reparents_mono) (simp add: pages_roots_Cons[OF no_count(1)])
    moreover from \<open>reparents root {pr} f f'\<close> Cons.prems(2) have "Get f' root = Null"
      by (rule reparents_Null)
    ultimately show ?thesis by simp
  next
    case (continue pr d0 f1 x n)
    from Add_indirect[OF continue(3)] have
      "objects f1 = AList.update pr (Dictionary (AList.update ''Parent'' (Reference root) d0)) (objects f)"
      by simp
    with continue(2) have s1: "reparents root {pr} f f1" by (rule reparents_step)
    then have n1: "Get f1 root = Null" using Cons.prems(2) by (rule reparents_Null)
    from Cons.IH[OF continue(5) n1] have
      s2: "reparents root (set (pages_roots rest)) f1 f'" and n2: "Get f' root = Null"
      by simp_all
    from reparents_trans[OF s1 s2] have "reparents root (set (pages_roots (c # rest))) f f'"
      by (simp add: pages_roots_Cons[OF continue(1)])
    with n2 show ?thesis by simp
  qed
qed

lemma parent_after_step:
  "objects f1 = AList.update pr (Dictionary (AList.update ''Parent'' (Reference root) d0)) (objects f) \<Longrightarrow>
     parent_of f1 pr = Some (Reference root)"
  by (simp add: parent_of_def Get_def update_conv')

lemma source_count_eq:
  "assert_ObjectReference (map_of c ''Pages'') = Some pr \<Longrightarrow> Get f pr = Dictionary d0 \<Longrightarrow>
     assert_Integer (map_of d0 ''Count'') = Some n \<Longrightarrow> source_count f c = n"
  by (simp add: source_count_def)

lemma well_formed_eq:
  "assert_ObjectReference (map_of c ''Pages'') = Some pr \<Longrightarrow> Get f pr = Dictionary d0 \<Longrightarrow>
     assert_Integer (map_of d0 ''Count'') = Some n \<Longrightarrow> well_formed f c"
  by (simp add: well_formed_def)

lemma loop_success:
  "mergePageTrees_loop f root kids cnt cs = (f', Returns (kids', cnt', None)) \<Longrightarrow>
   Get f root = Null \<Longrightarrow>
     kids' = kids @ map Reference (pages_roots cs) \<and>
     cnt' = cnt + sum_list (map (source_count f) cs) \<and>
     list_all (well_formed f) cs \<and>
     length (pages_roots cs) = length cs \<and>
     (\<forall>r\<in>set (pages_roots cs). parent_of f' r = Some (Reference root))"
proof (induction cs arbitrary: f kids cnt)
  case Nil
  then show ?case by (simp add: pages_roots_def map_filter_simps)
next
  case (Cons c rest)
  from Cons.prems(1) show ?case
  proof (cases rule: mergePageTrees_loop_Cons)
    case (continue pr d0 f1 x n)
    from Add_indirect[OF continue(3)] have upd:
      "objects f1 = AList.update pr (Dictionary (AList.update ''Parent'' (Reference root) d0)) (objects f)"
      by simp
    with continue(2) have s1: "reparents root {pr} f f1" by (rule reparents_step)
    then have n1: "Get f1 root = Null" using Cons.prems(2) by (rule reparents_Null)
    from loop_reparents[OF continue(5) n1] have
      s2: "reparents root (set (pages_roots rest)) f1 f'" by simp
    from Cons.IH[OF continue(5) n1] have
      k: "kids' = (kids @ [Reference pr]) @ map Reference (pages_roots rest)" and
      c: "cnt' = (cnt + n) + sum_list (map (source_count f1) rest)" and
      w: "list_all (well_formed f1) rest" and
      l: "length (pages_roots rest) = length rest" and
      p: "\<forall>r\<in>set (pages_roots rest). parent_of f' r = Some (Reference root)"
      by simp_all
    have pc: "pages_roots (c # rest) = pr # pages_roots rest"
      using continue(1) by (rule pages_roots_Cons)
    have "source_count f1 = source_count f"
      by (rule ext) (rule reparents_source_count[OF s1])
    then have sc: "map (source_count f1) rest = map (source_count f) rest" by simp
    have n: "source_count f c = n" using continue(1,2,4) by (rule source_count_eq)
    have "well_formed f1 = well_formed f"
      by (rule ext) (rule reparents_well_formed[OF s1])
    with w have wf: "list_all (well_formed f) rest" by simp
    have wc: "well_formed f c" using continue(1,2,4) by (rule well_formed_eq)
    have "parent_of f1 pr = Some (Reference root)" using upd by (rule parent_after_step)
    with s2 have ppr: "parent_of f' pr = Some (Reference root)" by (rule reparents_parent)
    from k have "kids' = kids @ map Reference (pages_roots (c # rest))" by (simp add: pc)
    moreover from c have "cnt' = cnt + sum_list (map (source_count f) (c # rest))"
      by (simp add: sc n add.assoc)
    moreover have "list_all (well_formed f) (c # rest)" using wf wc by simp
    moreover have "length (pages_roots (c # rest)) = length (c # rest)" using l by (simp add: pc)
    moreover have "\<forall>r\<in>set (pages_roots (c # rest)). parent_of f' r = Some (Reference root)"
      using p ppr by (simp add: pc)
    ultimately show ?thesis by (intro conjI)
  qed simp_all
qed

lemma Add_failed_fault: "Add f obj = (f', r, Some e) \<Longrightarrow> True \<in> set (add_faults f)"
  by (auto simp: Add_def split: list.splits bool.splits Object.splits)

lemma Add_faults_subset: "Add f obj = (f', r, e) \<Longrightarrow> set (add_faults f') \<subseteq> set (add_faults f)"
  by (cases "add_faults f"; cases obj) (auto simp: Add_def split: list.splits bool.splits)

lemma loop_error:
  "mergePageTrees_loop f root kids cnt cs = (f', Returns (kids', cnt', Some e)) \<Longrightarrow>
     e = AddError \<and> True \<in> set (add_faults f)"
proof (induction cs arbitrary: f kids cnt)
  case Nil
  then show ?case by simp
next
  case (Cons c rest)
  from Cons.prems(1) show ?case
  proof (cases rule: mergePageTrees_loop_Cons)
    case (add_fails pr d0 x err)
    with Add_failed[OF add_fails(3)] Add_failed_fault[OF add_fails(3)] show ?thesis by simp
  next
    case (continue pr d0 f1 x n)
    from Cons.IH[OF continue(5)] Add_faults_subset[OF continue(3)] show ?thesis by auto
  qed simp_all
qed

lemma loop_panics:
  "mergePageTrees_loop f root kids cnt cs = (f', Panics p) \<Longrightarrow>
     p \<in> {PagesNotObjectReference, PagesNotDictionary, CountNotInteger}"
proof (induction cs arbitrary: f kids cnt)
  case Nil
  then show ?case by simp
next
  case (Cons c rest)
  from Cons.prems(1) show ?case
  proof (cases rule: mergePageTrees_loop_Cons)
    case (continue pr d0 f1 x n)
    from Cons.IH[OF continue(5)] show ?thesis .
  qed simp_all
qed

lemma sum_list_word_of_int:
  "sum_list ws = (word_of_int (sum_list (map sint ws)) :: 64 word)"
  by (induction ws) simp_all

lemma sint_sum_list:
  assumes "- (2 ^ 63) \<le> sum_list (map sint ws)" and "sum_list (map sint ws) < 2 ^ 63"
  shows "sint (sum_list ws :: 64 word) = sum_list (map sint ws)"
proof -
  have "sint (sum_list ws) = signed_take_bit 63 (sum_list (map sint ws))"
    by (subst sum_list_word_of_int) (simp add: sint_sbintrunc')
  also from assms have "\<dots> = sum_list (map sint ws)"
    by (intro signed_take_bit_int_eq_self) simp_all
  finally show ?thesis .
qed

lemma mergePageTrees_cases:
  assumes "mergePageTrees file cs = (file', out)"
  obtains
    (reserve_fails) r err where "Add file Null = (file', r, Some err)"
      "out = Returns (r, Some err)"
  | (panics) f1 root p where "Add file Null = (f1, root, None)"
      "mergePageTrees_loop f1 root [] 0 cs = (file', Panics p)" "out = Panics p"
  | (loop_fails) f1 root kids cnt err where "Add file Null = (f1, root, None)"
      "mergePageTrees_loop f1 root [] 0 cs = (file', Returns (kids, cnt, Some err))"
      "out = Returns (root, Some err)"
  | (finished) f1 root f2 kids cnt x err where "Add file Null = (f1, root, None)"
      "mergePageTrees_loop f1 root [] 0 cs = (f2, Returns (kids, cnt, None))"
      "Add f2 (IndirectObject root
          (Dictionary [(''Type'', Name ''Pages''), (''Kids'', Array kids), (''Count'', Integer cnt)])) =
        (file', x, err)"
      "out = Returns (root, err)"
proof -
  obtain f1 root e where add: "Add file Null = (f1, root, e)"
    by (cases "Add file Null") auto
  show ?thesis
  proof (cases e)
    case (Some err)
    with assms add have *: "file' = f1" "out = Returns (root, Some err)"
      by (simp_all add: mergePageTrees_def)
    from add Some *(1) have "Add file Null = (file', root, Some err)" by simp
    then show ?thesis using *(2) by (rule reserve_fails)
  next
    case None
    with add have add': "Add file Null = (f1, root, None)" by simp
    obtain f2 lout where loop: "mergePageTrees_loop f1 root [] 0 cs = (f2, lout)"
      by (cases "mergePageTrees_loop f1 root [] 0 cs") auto
    show ?thesis
    proof (cases lout)
      case (Panics p)
      with assms add' loop have *: "file' = f2" "out = Panics p"
        by (simp_all add: mergePageTrees_def)
      from loop Panics *(1) have "mergePageTrees_loop f1 root [] 0 cs = (file', Panics p)" by simp
      with add' show ?thesis using *(2) by (rule panics)
    next
      case (Returns res)
      obtain kids cnt le where res: "res = (kids, cnt, le)" by (cases res) auto
      show ?thesis
      proof (cases le)
        case (Some err)
        with assms add' loop Returns res have *: "file' = f2" "out = Returns (root, Some err)"
          by (simp_all add: mergePageTrees_def)
        from loop Returns res Some *(1) have
          "mergePageTrees_loop f1 root [] 0 cs = (file', Returns (kids, cnt, Some err))" by simp
        with add' show ?thesis using *(2) by (rule loop_fails)
      next
        case None
        obtain f3 x err where fin: "Add f2 (IndirectObject root
          (Dictionary [(''Type'', Name ''Pages''), (''Kids'', Array kids), (''Count'', Integer cnt)])) =
          (f3, x, err)"
          by (cases "Add f2 (IndirectObject root
          (Dictionary [(''Type'', Name ''Pages''), (''Kids'', Array kids), (''Count'', Integer cnt)]))")
            auto
        with assms add' loop Returns res None have *: "file' = f3" "out = Returns (root, err)"
          by (simp_all add: mergePageTrees_def)
        from loop Returns res None have
          l: "mergePageTrees_loop f1 root [] 0 cs = (f2, Returns (kids, cnt, None))" by simp
        from fin *(1) have "Add f2 (IndirectObject root
          (Dictionary [(''Type'', Name ''Pages''), (''Kids'', Array kids), (''Count'', Integer cnt)])) =
          (file', x, err)" by simp
        with add' l show ?thesis using *(2) by (rule finished)
      qed
    qed
  qed
qed

lemma reserve_placeholder:
  assumes "Add file Null = (f1, root, None)"
  shows "root = free_reference file" and "root \<notin> keys file" and "Get f1 root = Null"
    and "Get file root = Null" and "reparents root {} file f1"
    and "set (add_faults f1) \<subseteq> set (add_faults file)"
proof -
  from Add_direct[OF assms] have r: "root = free_reference file"
    and upd: "objects f1 = AList.update root Null (objects file)" by auto
  show "root = free_reference file" by (rule r)
  show fresh: "root \<notin> keys file" unfolding r by (rule free_reference_fresh)
  show n1: "Get f1 root = Null" using upd by (rule Get_update_same)
  show n0: "Get file root = Null" using fresh by (rule Get_outside)
  have "Get f1 r' = Get file r'" for r'
  proof (cases "r' = root")
    case True
    with n1 n0 show ?thesis by simp
  next
    case False
    with upd show ?thesis by (rule Get_update_other)
  qed
  then show "reparents root {} file f1" by (simp add: reparents_def)
  show "set (add_faults f1) \<subseteq> set (add_faults file)" using assms by (rule Add_faults_subset)
qed

lemma mergePageTrees_frame:
  assumes "mergePageTrees file cs = (file', out)" and "r \<in> keys file"
  shows "Get file' r = Get file r \<or>
      (r \<in> set (pages_roots cs) \<and>
       (\<exists>d d'. Get file r = Dictionary d \<and> Get file' r = Dictionary d' \<and>
                map_of d' = (map_of d)(''Parent'' \<mapsto> Reference (free_reference file))))"
proof -
  have from_reparents: ?thesis
    if "reparents (free_reference file) (set (pages_roots cs)) file f2" and "Get file' r = Get f2 r"
    for f2
    using that unfolding reparents_def by metis
  from assms(1) show ?thesis
  proof (cases rule: mergePageTrees_cases)
    case (reserve_fails r0 err)
    from Add_failed[OF reserve_fails(1)] have "objects file' = objects file" by simp
    then have "Get file' r = Get file r" by (rule Get_same_objects)
    then show ?thesis by simp
  next
    case (panics f1 root p)
    note res = reserve_placeholder[OF panics(1)]
    from loop_reparents[OF panics(2) res(3)] have "reparents root (set (pages_roots cs)) f1 file'"
      by simp
    with res(5) have "reparents root ({} \<union> set (pages_roots cs)) file file'"
      by (rule reparents_trans)
    then show ?thesis by (intro from_reparents[of file']) (simp_all add: res(1))
  next
    case (loop_fails f1 root kids cnt err)
    note res = reserve_placeholder[OF loop_fails(1)]
    from loop_reparents[OF loop_fails(2) res(3)] have
      "reparents root (set (pages_roots cs)) f1 file'" by simp
    with res(5) have "reparents root ({} \<union> set (pages_roots cs)) file file'"
      by (rule reparents_trans)
    then show ?thesis by (intro from_reparents[of file']) (simp_all add: res(1))
  next
    case (finished f1 root f2 kids cnt x err)
    note res = reserve_placeholder[OF finished(1)]
    from loop_reparents[OF finished(2) res(3)] have
      "reparents root (set (pages_roots cs)) f1 f2" by simp
    with res(5) have rp: "reparents root ({} \<union> set (pages_roots cs)) file f2"
      by (rule reparents_trans)
    from assms(2) res(2) have ne: "r \<noteq> root" by auto
    have "Get file' r = Get f2 r"
    proof (cases err)
      case None
      with Add_indirect[of f2 root _ file' x] finished(3) have
        "objects file' = AList.update root
           (Dictionary [(''Type'', Name ''Pages''), (''Kids'', Array kids), (''Count'', Integer cnt)])
           (objects f2)" by simp
      then show ?thesis using ne by (rule Get_update_other)
    next
      case (Some e)
      with Add_failed[of f2 _ file' x e] finished(3) have "objects file' = objects f2" by simp
      then show ?thesis by (rule Get_same_objects)
    qed
    with rp show ?thesis by (intro from_reparents[of f2]) (simp_all add: res(1))
  qed
qed

lemma mergePageTrees_success:
  assumes "mergePageTrees file cs = (file', Returns (root, None))"
  shows "Get file' root =
       Dictionary [(''Type'', Name ''Pages''),
                   (''Kids'', Array (map Reference (pages_roots cs))),
                   (''Count'', Integer (sum_list (map (source_count file) cs)))] \<and>
     list_all (well_formed file) cs \<and>
     length (pages_roots cs) = length cs \<and>
     (\<forall>r\<in>set (pages_roots cs). parent_of file' r = Some (Reference root))"
  using assms
proof (cases rule: mergePageTrees_cases)
  case (finished f1 root' f2 kids cnt x err)
  then have eq: "root' = root" "err = None" by simp_all
  note res = reserve_placeholder[OF finished(1)]
  from loop_reparents[OF finished(2) res(3)] have n2: "Get f2 root' = Null" by simp
  from loop_success[OF finished(2) res(3)] have
    k: "kids = map Reference (pages_roots cs)" and
    c: "cnt = sum_list (map (source_count f1) cs)" and
    w: "list_all (well_formed f1) cs" and
    l: "length (pages_roots cs) = length cs" and
    p: "\<forall>r\<in>set (pages_roots cs). parent_of f2 r = Some (Reference root')"
    by simp_all
  have "source_count f1 = source_count file"
    by (rule ext) (rule reparents_source_count[OF res(5)])
  with c have c': "cnt = sum_list (map (source_count file) cs)" by simp
  have "well_formed f1 = well_formed file"
    by (rule ext) (rule reparents_well_formed[OF res(5)])
  with w have w': "list_all (well_formed file) cs" by simp
  from Add_indirect[of f2 root' _ file' x] finished(3) eq(2) have upd:
    "objects file' = AList.update root'
       (Dictionary [(''Type'', Name ''Pages''), (''Kids'', Array kids), (''Count'', Integer cnt)])
       (objects f2)" by simp
  then have g: "Get file' root' =
      Dictionary [(''Type'', Name ''Pages''), (''Kids'', Array kids), (''Count'', Integer cnt)]"
    by (rule Get_update_same)
  have p': "parent_of file' r = Some (Reference root')" if "r \<in> set (pages_roots cs)" for r
  proof -
    from p that have pr: "parent_of f2 r = Some (Reference root')" by blast
    with n2 have "r \<noteq> root'" by (auto simp: parent_of_def)
    with upd have "Get file' r = Get f2 r" by (rule Get_update_other)
    with pr show ?thesis by (simp add: parent_of_def)
  qed
  from g k c' w' l p' eq(1) show ?thesis by simp
qed simp_all

lemma mergePageTrees_ill_formed:
  assumes "mergePageTrees file cs = (file', out)" and "\<not> list_all (well_formed file) cs"
  shows "case out of
           Panics p \<Rightarrow> p \<in> {PagesNotObjectReference, PagesNotDictionary, CountNotInteger}
         | Returns (r, err) \<Rightarrow> err = Some AddError \<and> True \<in> set (add_faults file)"
  using assms(1)
proof (cases rule: mergePageTrees_cases)
  case (reserve_fails r err)
  with Add_failed[OF reserve_fails(1)] Add_failed_fault[OF reserve_fails(1)] show ?thesis by simp
next
  case (panics f1 root p)
  with loop_panics[OF panics(2)] show ?thesis by simp
next
  case (loop_fails f1 root kids cnt err)
  note res = reserve_placeholder[OF loop_fails(1)]
  from loop_error[OF loop_fails(2)] res(6) loop_fails(3) show ?thesis by auto
next
  case (finished f1 root f2 kids cnt x err)
  note res = reserve_placeholder[OF finished(1)]
  from loop_success[OF finished(2) res(3)] have "list_all (well_formed f1) cs" by simp
  moreover have "well_formed f1 = well_formed file"
    by (rule ext) (rule reparents_well_formed[OF res(5)])
  ultimately have "list_all (well_formed file) cs" by simp
  with assms(2) show ?thesis by simp
qed

lemma two_roots_merged:
  "mergePageTrees (two_roots a b) [catalog_of (ObjectReference 1 0), catalog_of (ObjectReference 2 0)] =
     (\<lparr>objects =
         [(ObjectReference 1 0,
           Dictionary [(''Type'', Name ''Pages''), (''Count'', Integer a),
                       (''Parent'', Reference (ObjectReference 3 0))]),
          (ObjectReference 2 0,
           Dictionary [(''Type'', Name ''Pages''), (''Count'', Integer b),
                       (''Parent'', Reference (ObjectReference 3 0))]),
          (ObjectReference 3 0,
           Dictionary [(''Type'', Name ''Pages''),
                       (''Kids'', Array [Reference (ObjectReference 1 0), Reference (ObjectReference 2 0)]),
                       (''Count'', Integer (a + b))])],
        Root = ObjectReference 0 0, add_faults = [], save_fault = False\<rparr>,
      Returns (ObjectReference 3 0, None))"
  by (simp add: mergePageTrees_def two_roots_def catalog_of_def Add_def Get_def free_reference_def)

subsection \<open>The orchestrator\<close>

lemma copy_reference_result:
  "copyReferencedObjects refs dst src (Reference t) = (dst', Inr (refs', obj')) \<Longrightarrow>
     \<exists>r. obj' = Reference r"
  by (auto split: option.splits prod.splits sum.splits)

lemma copy_reference_table:
  assumes "copyReferencedObjects refs dst src (Reference t) = (dst', Inr (refs', obj'))"
  shows "\<exists>r. obj' = Reference r \<and> refs' t = Some r \<and>
         (\<forall>r0. refs t = Some r0 \<longrightarrow> r = r0 \<and> dst' = dst \<and> refs' = refs)"
proof (cases "refs t")
  case (Some r0)
  with assms have "dst' = dst" "refs' = refs" "obj' = Reference r0" by simp_all
  with Some show ?thesis by simp
next
  case None
  with assms have "\<exists>r. obj' = Reference r \<and> refs' t = Some r"
    by (auto split: prod.splits sum.splits option.splits)
  with None show ?thesis by simp
qed

lemma opened_of_append: "opened_of (xs @ ys) = opened_of xs @ opened_of ys"
  by (induction xs rule: opened_of.induct) simp_all

lemma closed_of_append: "closed_of (xs @ ys) = closed_of xs @ closed_of ys"
  by (induction xs rule: closed_of.induct) simp_all

lemma closed_of_Closed: "closed_of (map Closed ps) = ps"
  by (induction ps) simp_all

lemma opened_of_Closed: "opened_of (map Closed ps) = []"
  by (induction ps) simp_all

lemma steps_of_Cons: "steps_of (fn # rest) = Opened fn # Copied fn # steps_of rest"
  by (simp add: steps_of_def)

lemma length_steps_of: "length (steps_of sources) = 2 * length sources"
  by (induction sources) (simp_all add: steps_of_def)

lemma sources_loop_trace:
  "sources_loop e s sources = (s', out) \<Longrightarrow>
     \<exists>k\<le>2 * length sources.
        trace s' = trace s @ take k (steps_of sources) \<and>
        closers s' = closers s @ opened_of (take k (steps_of sources)) \<and>
        (\<exists>res. out = Returns res \<and> (res = None \<longleftrightarrow> k = 2 * length sources))"
proof (induction sources arbitrary: s)
  case Nil
  then show ?case by (simp add: steps_of_def)
next
  case (Cons fn rest)
  show ?case
  proof (cases "Open e fn")
    case None
    with Cons.prems have "s' = s" "out = Returns (Some (OpenError fn))" by simp_all
    then show ?thesis by (intro exI[of _ 0]) simp
  next
    case (Some src)
    let ?s1 = "s\<lparr>closers := closers s @ [fn], trace := trace s @ [Opened fn]\<rparr>"
    obtain dst res where
      copy: "copyReferencedObjects Map.empty (merged s) src (Reference (Root src)) = (dst, res)"
      by (cases "copyReferencedObjects Map.empty (merged s) src (Reference (Root src))") auto
    show ?thesis
    proof (cases res)
      case (Inl err)
      with Cons.prems Some copy have "s' = ?s1\<lparr>merged := dst\<rparr>" "out = Returns (Some err)"
        by (simp_all add: Let_def)
      then show ?thesis by (intro exI[of _ 1]) (simp add: steps_of_Cons)
    next
      case (Inr b)
      obtain refs' root where b: "b = (refs', root)" by (cases b) auto
      from copy Inr b copy_reference_result obtain r where r: "root = Reference r" by blast
      let ?s2 = "?s1\<lparr>merged := dst\<lparr>Root := r\<rparr>, roots := roots ?s1 @ [r],
                      trace := trace ?s1 @ [Copied fn]\<rparr>"
      from Cons.prems Some copy Inr b r have rec: "sources_loop e ?s2 rest = (s', out)"
        by (simp add: Let_def)
      from Cons.IH[OF rec] obtain k where k: "k \<le> 2 * length rest"
        "trace s' = trace ?s2 @ take k (steps_of rest)"
        "closers s' = closers ?s2 @ opened_of (take k (steps_of rest))"
        "\<exists>res. out = Returns res \<and> (res = None \<longleftrightarrow> k = 2 * length rest)"
        by blast
      then show ?thesis by (intro exI[of _ "Suc (Suc k)"]) (simp add: steps_of_Cons)
    qed
  qed
qed

lemma mergePageTrees_panic_kinds:
  assumes "mergePageTrees f cs = (f', Panics p)"
  shows "p \<in> {PagesNotObjectReference, PagesNotDictionary, CountNotInteger}"
  using assms
proof (cases rule: mergePageTrees_cases)
  case (panics f1 root p')
  with loop_panics[OF panics(2)] show ?thesis by simp
qed simp_all

lemma take_steps_tail:
  "take (2 * length sources + j) (steps_of sources @ rest) = steps_of sources @ take j rest"
  by (simp add: length_steps_of)

lemma opened_of_tail: "opened_of (take j [PageTreesMerged, CatalogInstalled, Saved]) = []"
proof -
  have "j = 0 \<or> j = 1 \<or> j = 2 \<or> 3 \<le> j" by arith
  then show ?thesis by (auto simp: take_Cons')
qed

lemma body_trace:
  assumes "MergeFiles_body e s0 sources = (s, saved, out)"
  shows "\<exists>n\<le>2 * length sources + 3.
     trace s = trace s0 @ take n (steps_of sources @ [PageTreesMerged, CatalogInstalled, Saved]) \<and>
     closers s =
       closers s0 @ opened_of (take n (steps_of sources @ [PageTreesMerged, CatalogInstalled, Saved])) \<and>
     (out = Returns None \<longleftrightarrow> n = 2 * length sources + 3) \<and>
     (out = Returns None \<longleftrightarrow> saved \<noteq> None) \<and>
     (\<forall>p. out = Panics p \<longrightarrow>
        p \<in> {CatalogNotDictionary, PagesNotObjectReference, PagesNotDictionary, CountNotInteger})"
proof -
  let ?tail = "[PageTreesMerged, CatalogInstalled, Saved]"
  let ?full = "2 * length sources"
  obtain s1 lout where loop: "sources_loop e s0 sources = (s1, lout)"
    by (cases "sources_loop e s0 sources") auto
  from sources_loop_trace[OF loop] obtain k res where k: "k \<le> ?full"
    and tr: "trace s1 = trace s0 @ take k (steps_of sources)"
    and cl: "closers s1 = closers s0 @ opened_of (take k (steps_of sources))"
    and lout: "lout = Returns res" and res: "res = None \<longleftrightarrow> k = ?full"
    by blast
  have short: ?thesis
    if "s = s1" "saved = None" "out \<noteq> Returns None"
      "\<forall>p. out = Panics p \<longrightarrow>
        p \<in> {CatalogNotDictionary, PagesNotObjectReference, PagesNotDictionary, CountNotInteger}"
      "closers s1 = closers s" "trace s = trace s1"
  proof -
    have "take k (steps_of sources @ ?tail) = take k (steps_of sources)"
      using k by (simp add: length_steps_of)
    with that tr cl k show ?thesis by (intro exI[of _ k]) auto
  qed
  have long: ?thesis
    if "k = ?full" "trace s = trace s1 @ take j ?tail" "closers s = closers s1" "j \<le> 3"
      "out = Returns None \<longleftrightarrow> j = 3" "out = Returns None \<longleftrightarrow> saved \<noteq> None"
      "\<forall>p. out = Panics p \<longrightarrow>
        p \<in> {CatalogNotDictionary, PagesNotObjectReference, PagesNotDictionary, CountNotInteger}"
    for j
  proof -
    have t: "take (?full + j) (steps_of sources @ ?tail) = steps_of sources @ take j ?tail"
      by (rule take_steps_tail)
    have s: "take k (steps_of sources) = steps_of sources"
      using that(1) by (simp add: length_steps_of)
    have tr': "trace s = trace s0 @ take (?full + j) (steps_of sources @ ?tail)"
      unfolding t using that(2) tr s by simp
    have cl': "closers s = closers s0 @ opened_of (take (?full + j) (steps_of sources @ ?tail))"
      unfolding t using that(3) cl s by (simp add: opened_of_append opened_of_tail)
    have le: "?full + j \<le> ?full + 3" using that(4) by simp
    have ok: "out = Returns None \<longleftrightarrow> ?full + j = ?full + 3" using that(5) by simp
    from le tr' cl' ok that(6,7) show ?thesis by blast
  qed
  show ?thesis
  proof (cases res)
    case (Some err)
    with assms loop lout have "s = s1" "saved = None" "out = Returns (Some err)"
      by (simp_all add: MergeFiles_body_def)
    then show ?thesis by (intro short) simp_all
  next
    case None
    with res have kf: "k = ?full" by simp
    show ?thesis
    proof (cases "get_catalogs (merged s1) (roots s1)")
      case gc: None
      with assms loop lout None have "s = s1" "saved = None" "out = Panics CatalogNotDictionary"
        by (simp_all add: MergeFiles_body_def)
      then show ?thesis by (intro short) simp_all
    next
      case (Some catalogs)
      note gc = this
      obtain m1 mout where mp: "mergePageTrees (merged s1) catalogs = (m1, mout)"
        by (cases "mergePageTrees (merged s1) catalogs") auto
      show ?thesis
      proof (cases mout)
        case (Panics p)
        with assms loop lout None gc mp have "s = s1\<lparr>merged := m1\<rparr>" "saved = None"
          "out = Panics p" by (simp_all add: MergeFiles_body_def)
        moreover from mp Panics have "mergePageTrees (merged s1) catalogs = (m1, Panics p)"
          by simp
        then have "p \<in> {PagesNotObjectReference, PagesNotDictionary, CountNotInteger}"
          by (rule mergePageTrees_panic_kinds)
        ultimately show ?thesis by (intro long[of 0]) (auto simp: kf)
      next
        case (Returns r)
        obtain pageTreeRef merr where r: "r = (pageTreeRef, merr)" by (cases r) auto
        show ?thesis
        proof (cases merr)
          case (Some err)
          with assms loop lout None gc mp Returns r have "s = s1\<lparr>merged := m1\<rparr>" "saved = None"
            "out = Returns (Some err)" by (simp_all add: MergeFiles_body_def)
          then show ?thesis by (intro long[of 0]) (auto simp: kf)
        next
          case me: None
          obtain m2 root aerr where add:
            "Add m1 (Dictionary [(''Type'', Name ''Catalog''), (''Pages'', Reference pageTreeRef)]) =
               (m2, root, aerr)"
            by (cases "Add m1 (Dictionary [(''Type'', Name ''Catalog''),
                  (''Pages'', Reference pageTreeRef)])") auto
          show ?thesis
          proof (cases aerr)
            case (Some err)
            with assms loop lout None gc mp Returns r me add have
              "s = s1\<lparr>merged := m2\<lparr>Root := root\<rparr>, trace := trace s1 @ [PageTreesMerged]\<rparr>"
              "saved = None" "out = Returns (Some err)"
              by (simp_all add: MergeFiles_body_def)
            then show ?thesis by (intro long[of 1]) (auto simp: kf)
          next
            case ae: None
            show ?thesis
            proof (cases "Save (m2\<lparr>Root := root\<rparr>)")
              case (Some err)
              with assms loop lout None gc mp Returns r me add ae have
                "s = s1\<lparr>merged := m2\<lparr>Root := root\<rparr>,
                         trace := trace s1 @ [PageTreesMerged, CatalogInstalled]\<rparr>"
                "saved = None" "out = Returns (Some err)"
                by (simp_all add: MergeFiles_body_def Let_def)
              then show ?thesis by (intro long[of 2]) (auto simp: kf)
            next
              case sv: None
              with assms loop lout None gc mp Returns r me add ae have
                "s = s1\<lparr>merged := m2\<lparr>Root := root\<rparr>,
                         trace := trace s1 @ [PageTreesMerged, CatalogInstalled, Saved]\<rparr>"
                "saved = Some (m2\<lparr>Root := root\<rparr>)" "out = Returns None"
                by (simp_all add: MergeFiles_body_def Let_def)
              then show ?thesis by (intro long[of 3]) (auto simp: kf)
            qed
          qed
        qed
      qed
    qed
  qed
qed

lemma MergeFiles_trace:
  "\<exists>n\<le>length (plan dest sources).
     fst (MergeFiles e dest sources) =
       take n (plan dest sources) @ map Closed (opened_of (take n (plan dest sources))) \<and>
     (snd (snd (MergeFiles e dest sources)) = Returns None \<longleftrightarrow> n = length (plan dest sources)) \<and>
     (snd (snd (MergeFiles e dest sources)) = Returns None \<longleftrightarrow>
        fst (snd (MergeFiles e dest sources)) \<noteq> None) \<and>
     (\<forall>p. snd (snd (MergeFiles e dest sources)) = Panics p \<longrightarrow>
        p \<in> {CatalogNotDictionary, PagesNotObjectReference, PagesNotDictionary, CountNotInteger})"
proof (cases "Create e dest")
  case None
  then have "MergeFiles e dest sources = ([], None, Returns (Some (CreateError dest)))"
    by (simp add: MergeFiles_def)
  then show ?thesis by (intro exI[of _ 0]) (simp add: plan_def)
next
  case (Some m)
  let ?s0 = "\<lparr>merged = m, closers = [], roots = [], trace = [Created dest]\<rparr>"
  let ?rest = "steps_of sources @ [PageTreesMerged, CatalogInstalled, Saved]"
  obtain s saved out where body: "MergeFiles_body e ?s0 sources = (s, saved, out)"
    by (cases "MergeFiles_body e ?s0 sources") auto
  with Some have mf: "MergeFiles e dest sources = (trace s @ map Closed (closers s), saved, out)"
    by (simp add: MergeFiles_def)
  from body_trace[OF body] obtain n where n: "n \<le> 2 * length sources + 3"
    and tr: "trace s = trace ?s0 @ take n ?rest"
    and cl: "closers s = closers ?s0 @ opened_of (take n ?rest)"
    and ok: "out = Returns None \<longleftrightarrow> n = 2 * length sources + 3"
    and sv: "out = Returns None \<longleftrightarrow> saved \<noteq> None"
    and pn: "\<forall>p. out = Panics p \<longrightarrow>
        p \<in> {CatalogNotDictionary, PagesNotObjectReference, PagesNotDictionary, CountNotInteger}"
    by blast
  have len: "length (plan dest sources) = Suc (2 * length sources + 3)"
    by (simp add: plan_def length_steps_of)
  have tk: "take (Suc n) (plan dest sources) = Created dest # take n ?rest"
    by (simp add: plan_def)
  from n tr cl ok sv pn show ?thesis
    unfolding mf by (intro exI[of _ "Suc n"]) (auto simp: len tk)
qed

lemma closed_of_take: "closed_of xs = [] \<Longrightarrow> closed_of (take n xs) = []"
proof (induction xs arbitrary: n)
  case Nil
  show ?case by simp
next
  case (Cons ev es)
  show ?case
  proof (cases n)
    case 0
    then show ?thesis by simp
  next
    case (Suc k)
    from Cons.prems have "closed_of es = []" by (cases ev) simp_all
    then have "closed_of (take k es) = []" by (rule Cons.IH)
    with Cons.prems Suc show ?thesis by (cases ev) simp_all
  qed
qed

lemma closed_of_steps_of: "closed_of (steps_of sources) = []"
  by (induction sources) (simp_all add: steps_of_def)

lemma closed_of_plan: "closed_of (plan dest sources) = []"
  by (simp add: plan_def closed_of_append closed_of_steps_of)

lemma no_fault_tl: "True \<notin> set xs \<Longrightarrow> True \<notin> set (tl xs)"
  by (cases xs) simp_all

lemma Add_direct_ok:
  assumes "True \<notin> set (add_faults f)" and "\<And>r ob. obj \<noteq> IndirectObject r ob"
  shows "Add f obj =
     (f\<lparr>objects := AList.update (free_reference f) obj (objects f),
        add_faults := tl (add_faults f)\<rparr>, free_reference f, None)"
  using assms by (cases "add_faults f"; cases obj) (auto simp: Add_def split: bool.splits)

lemma Add_indirect_ok:
  assumes "True \<notin> set (add_faults f)"
  shows "Add f (IndirectObject r ob) =
     (f\<lparr>objects := AList.update r ob (objects f), add_faults := tl (add_faults f)\<rparr>, r, None)"
  using assms by (cases "add_faults f") (auto simp: Add_def split: bool.splits)

lemma mergePageTrees_no_catalogs:
  assumes "True \<notin> set (add_faults m)"
  shows "mergePageTrees m [] =
     (m\<lparr>objects :=
          AList.update (free_reference m)
            (Dictionary [(''Type'', Name ''Pages''), (''Kids'', Array []), (''Count'', Integer 0)])
            (objects m),
        add_faults := tl (tl (add_faults m))\<rparr>,
      Returns (free_reference m, None))"
proof -
  let ?m1 = "m\<lparr>objects := AList.update (free_reference m) Null (objects m),
        add_faults := tl (add_faults m)\<rparr>"
  have a1: "Add m Null = (?m1, free_reference m, None)"
    using assms by (intro Add_direct_ok) simp_all
  have nf1: "True \<notin> set (add_faults ?m1)" using assms by (simp add: no_fault_tl)
  have a2: "Add ?m1 (IndirectObject (free_reference m)
        (Dictionary [(''Type'', Name ''Pages''), (''Kids'', Array []), (''Count'', Integer 0)])) =
      (?m1\<lparr>objects := AList.update (free_reference m)
            (Dictionary [(''Type'', Name ''Pages''), (''Kids'', Array []), (''Count'', Integer 0)])
            (objects ?m1), add_faults := tl (add_faults ?m1)\<rparr>, free_reference m, None)"
    using nf1 by (rule Add_indirect_ok)
  show ?thesis
    unfolding mergePageTrees_def a1 by (simp add: a2)
qed

section \<open>The claims\<close>

text \<open>
  C1. A reference that is already in the translation table is answered from the table:
  \<^verbatim>\<open>copyReferencedObjects\<close> returns the mapped destination reference, the store and the
  table as they were, without a recursive call and without an \<^verbatim>\<open>Add\<close>. Consequently a copy
  that succeeds has made exactly one destination slot for every source reference it
  entered in the table: the table maps the new references one-to-one onto the new slots,
  however often a reference is reached and whether or not it lies on a cycle.
\<close>

theorem copy_known_reference:
  "(refs t = Some r \<longrightarrow>
      copyReferencedObjects refs dst src (Reference t) = (dst, Inr (refs, Reference r))) \<and>
   (copyReferencedObjects refs dst src obj = (dst', Inr (refs', obj')) \<longrightarrow>
      bij_betw (\<lambda>t. the (refs' t)) (dom refs' - dom refs) (keys dst' - keys dst))"
proof (intro conjI impI)
  assume "refs t = Some r"
  then show "copyReferencedObjects refs dst src (Reference t) = (dst, Inr (refs, Reference r))"
    by simp
next
  assume "copyReferencedObjects refs dst src obj = (dst', Inr (refs', obj'))"
  then have "grows refs dst refs' dst'" by (rule copy_grows(1))
  then show "bij_betw (\<lambda>t. the (refs' t)) (dom refs' - dom refs) (keys dst' - keys dst)"
    by (rule grows_bij)
qed

theorem copy_known_reference_witness:
  "copyReferencedObjects [ObjectReference 7 0 \<mapsto> ObjectReference 9 0] empty_File shared_cyclic
       (Reference (ObjectReference 7 0)) =
     (empty_File, Inr ([ObjectReference 7 0 \<mapsto> ObjectReference 9 0], Reference (ObjectReference 9 0))) \<and>
   (\<exists>dst' refs' obj'.
      copyReferencedObjects [ObjectReference 7 0 \<mapsto> ObjectReference 9 0] empty_File shared_cyclic
        (Reference (ObjectReference 1 0)) = (dst', Inr (refs', obj')) \<and>
      objects dst' =
        [(ObjectReference 1 0,
          Dictionary [(''A'', Reference (ObjectReference 2 0)), (''B'', Reference (ObjectReference 2 0))]),
         (ObjectReference 2 0, Array [Reference (ObjectReference 1 0), Integer 3])] \<and>
      bij_betw (\<lambda>t. the (refs' t))
        (dom refs' - dom [ObjectReference 7 0 \<mapsto> ObjectReference 9 0])
        (keys dst' - keys empty_File))"
proof -
  let ?refs = "[ObjectReference 7 0 \<mapsto> ObjectReference 9 0]"
  have run: "\<exists>dst' refs' obj'.
      copyReferencedObjects ?refs empty_File shared_cyclic (Reference (ObjectReference 1 0)) =
        (dst', Inr (refs', obj')) \<and>
      objects dst' =
        [(ObjectReference 1 0,
          Dictionary [(''A'', Reference (ObjectReference 2 0)), (''B'', Reference (ObjectReference 2 0))]),
         (ObjectReference 2 0, Array [Reference (ObjectReference 1 0), Integer 3])]"
    by (simp add: shared_cyclic_def empty_File_def Add_def Get_def free_reference_def)
  then obtain dst' refs' obj' where
    eq: "copyReferencedObjects ?refs empty_File shared_cyclic (Reference (ObjectReference 1 0)) =
        (dst', Inr (refs', obj'))" and
    ob: "objects dst' =
        [(ObjectReference 1 0,
          Dictionary [(''A'', Reference (ObjectReference 2 0)), (''B'', Reference (ObjectReference 2 0))]),
         (ObjectReference 2 0, Array [Reference (ObjectReference 1 0), Integer 3])]"
    by blast
  have known: "?refs (ObjectReference 7 0) = Some (ObjectReference 9 0)" by simp
  from copy_known_reference[of ?refs "ObjectReference 7 0" "ObjectReference 9 0" empty_File
      shared_cyclic "Reference (ObjectReference 1 0)" dst' refs' obj'] known eq ob
  show ?thesis by blast
qed

text \<open>
  C2. \<^verbatim>\<open>copyReferencedObjects\<close> terminates on every table, destination, source and object:
  from no call is there an infinite chain of recursive calls (the domain of the recursion
  is everything), cyclic sources included. For a reference that is not in the table, a
  successful call has first reserved a placeholder (an \<^verbatim>\<open>Add\<close> of Null gave the fresh
  reference, whose slot holds Null), has then copied the referenced object with the
  table already mapping the source reference to the placeholder, and has at the end
  left the copied content in the slot of that same reference, which it returns and which
  the table gives for the source reference.
\<close>

theorem copy_terminates:
  "copyReferencedObjects_copy_dict_copy_array_dom (Inl (refs, dst, src, obj)) \<and>
   (refs t = None \<and> copyReferencedObjects refs dst src (Reference t) = (dst', Inr (refs', obj')) \<longrightarrow>
      (\<exists>dst1 dst2 newRefs newObj.
         Add dst Null = (dst1, free_reference dst, None) \<and>
         Get dst1 (free_reference dst) = Null \<and>
         copyReferencedObjects (refs(t \<mapsto> free_reference dst)) dst1 src (Get src t) =
           (dst2, Inr (newRefs, newObj)) \<and>
         obj' = Reference (free_reference dst) \<and>
         refs' t = Some (free_reference dst) \<and>
         Get dst' (free_reference dst) = newObj))"
proof (intro conjI impI)
  show "copyReferencedObjects_copy_dict_copy_array_dom (Inl (refs, dst, src, obj))"
    using copy_total by (rule spec)
next
  assume h: "refs t = None \<and>
    copyReferencedObjects refs dst src (Reference t) = (dst', Inr (refs', obj'))"
  then have None: "refs t = None" by (rule conjunct1)
  from h have run: "copyReferencedObjects refs dst src (Reference t) = (dst', Inr (refs', obj'))"
    by (rule conjunct2)
  obtain dst1 ref e1 where add1': "Add dst Null = (dst1, ref, e1)"
    by (cases "Add dst Null") auto
  obtain dst2 res2 where
    rec': "copyReferencedObjects (refs(t \<mapsto> ref)) dst1 src (Get src t) = (dst2, res2)"
    by (cases "copyReferencedObjects (refs(t \<mapsto> ref)) dst1 src (Get src t)") auto
  from run None add1' rec' obtain newRefs newObj where
    e1: "e1 = None" and res2: "res2 = Inr (newRefs, newObj)"
    by (cases e1; cases res2) auto
  obtain dst3 ref' e3 where add2': "Add dst2 (IndirectObject ref newObj) = (dst3, ref', e3)"
    by (cases "Add dst2 (IndirectObject ref newObj)") auto
  from run None add1' rec' e1 res2 add2' have
    e3: "e3 = None" and d3: "dst3 = dst'" and res: "refs' = newRefs(t \<mapsto> ref')"
      and ob: "obj' = Reference ref'"
    by (cases e3; simp)+
  note add1 = add1'[unfolded e1] and rec = rec'[unfolded res2] and add2 = add2'[unfolded e3 d3]
  from Add_direct[OF add1] have r1: "ref = free_reference dst"
    "objects dst1 = AList.update (free_reference dst) Null (objects dst)" by auto
  from Add_indirect[OF add2] have r2: "ref' = ref"
    "objects dst' = AList.update ref newObj (objects dst2)" by auto
  have "Get dst1 (free_reference dst) = Null" using r1(2) by (rule Get_update_same)
  moreover have "Get dst' (free_reference dst) = newObj"
    using r2(2) unfolding r1(1) by (rule Get_update_same)
  moreover have "refs' t = Some (free_reference dst)" using res r2(1) r1(1) by simp
  moreover have "obj' = Reference (free_reference dst)" using ob r2(1) r1(1) by simp
  ultimately show "\<exists>dst1 dst2 newRefs newObj.
         Add dst Null = (dst1, free_reference dst, None) \<and>
         Get dst1 (free_reference dst) = Null \<and>
         copyReferencedObjects (refs(t \<mapsto> free_reference dst)) dst1 src (Get src t) =
           (dst2, Inr (newRefs, newObj)) \<and>
         obj' = Reference (free_reference dst) \<and>
         refs' t = Some (free_reference dst) \<and>
         Get dst' (free_reference dst) = newObj"
    using add1 rec unfolding r1(1) by blast
qed

theorem copy_terminates_witness:
  "copyReferencedObjects_copy_dict_copy_array_dom
     (Inl (Map.empty, empty_File, shared_cyclic, Reference (ObjectReference 1 0))) \<and>
   (\<exists>dst' refs' dst1 dst2 newRefs.
      copyReferencedObjects Map.empty empty_File shared_cyclic (Reference (ObjectReference 1 0)) =
        (dst', Inr (refs', Reference (ObjectReference 1 0))) \<and>
      Add empty_File Null = (dst1, ObjectReference 1 0, None) \<and>
      Get dst1 (ObjectReference 1 0) = Null \<and>
      copyReferencedObjects [ObjectReference 1 0 \<mapsto> ObjectReference 1 0] dst1 shared_cyclic
          (Get shared_cyclic (ObjectReference 1 0)) =
        (dst2, Inr (newRefs,
           Dictionary [(''A'', Reference (ObjectReference 2 0)), (''B'', Reference (ObjectReference 2 0))])) \<and>
      refs' (ObjectReference 1 0) = Some (ObjectReference 1 0) \<and>
      Get dst' (ObjectReference 1 0) =
        Dictionary [(''A'', Reference (ObjectReference 2 0)), (''B'', Reference (ObjectReference 2 0))] \<and>
      Get dst' (ObjectReference 2 0) = Array [Reference (ObjectReference 1 0), Integer 3])"
proof -
  have fr: "free_reference empty_File = ObjectReference 1 0"
    by (simp add: free_reference_def empty_File_def)
  have "\<exists>dst' refs'.
      copyReferencedObjects Map.empty empty_File shared_cyclic (Reference (ObjectReference 1 0)) =
        (dst', Inr (refs', Reference (ObjectReference 1 0))) \<and>
      Get dst' (ObjectReference 1 0) =
        Dictionary [(''A'', Reference (ObjectReference 2 0)), (''B'', Reference (ObjectReference 2 0))] \<and>
      Get dst' (ObjectReference 2 0) = Array [Reference (ObjectReference 1 0), Integer 3]"
    by (simp add: shared_cyclic_def empty_File_def Add_def Get_def free_reference_def)
  then obtain dst' refs' where
    run: "copyReferencedObjects Map.empty empty_File shared_cyclic (Reference (ObjectReference 1 0)) =
        (dst', Inr (refs', Reference (ObjectReference 1 0)))" and
    g1: "Get dst' (ObjectReference 1 0) =
        Dictionary [(''A'', Reference (ObjectReference 2 0)), (''B'', Reference (ObjectReference 2 0))]" and
    g2: "Get dst' (ObjectReference 2 0) = Array [Reference (ObjectReference 1 0), Integer 3]"
    by blast
  have none: "Map.empty (ObjectReference 1 0) = (None :: ObjectReference option)" by simp
  from copy_terminates[of Map.empty empty_File shared_cyclic "Reference (ObjectReference 1 0)"
      "ObjectReference 1 0" dst' refs' "Reference (ObjectReference 1 0)"] none run
  show ?thesis unfolding fr using g1 g2 by auto
qed

text \<open>
  C3, as amended. When \<^verbatim>\<open>mergePageTrees\<close> succeeds, the new page-tree root is the Dictionary
  with \<^verbatim>\<open>Type\<close> Pages, with \<^verbatim>\<open>Kids\<close> the \<^verbatim>\<open>Pages\<close> references of the catalogs in input
  order, one for each catalog, and with \<^verbatim>\<open>Count\<close> the sum of the per-source counts in the
  64-bit wrap-around arithmetic of \<^verbatim>\<open>pdf.Integer\<close>; every catalog is well formed and every
  kid's \<^verbatim>\<open>Parent\<close> is the new root's reference. The \<^verbatim>\<open>Count\<close> is the exact sum whenever the
  exact sum lies in the range of a signed 64-bit integer.
\<close>

theorem mergePageTrees_root:
  "mergePageTrees file catalogs = (file', Returns (root, None)) \<longrightarrow>
     Get file' root =
       Dictionary [(''Type'', Name ''Pages''),
                   (''Kids'', Array (map Reference (pages_roots catalogs))),
                   (''Count'', Integer (sum_list (map (source_count file) catalogs)))] \<and>
     list_all (well_formed file) catalogs \<and>
     length (pages_roots catalogs) = length catalogs \<and>
     (\<forall>r\<in>set (pages_roots catalogs). parent_of file' r = Some (Reference root)) \<and>
     (- (2 ^ 63) \<le> sum_list (map sint (map (source_count file) catalogs)) \<and>
      sum_list (map sint (map (source_count file) catalogs)) < 2 ^ 63 \<longrightarrow>
        sint (sum_list (map (source_count file) catalogs)) =
          sum_list (map sint (map (source_count file) catalogs)))"
proof (intro impI)
  assume "mergePageTrees file catalogs = (file', Returns (root, None))"
  from mergePageTrees_success[OF this] sint_sum_list[of "map (source_count file) catalogs"]
  show "Get file' root =
       Dictionary [(''Type'', Name ''Pages''),
                   (''Kids'', Array (map Reference (pages_roots catalogs))),
                   (''Count'', Integer (sum_list (map (source_count file) catalogs)))] \<and>
     list_all (well_formed file) catalogs \<and>
     length (pages_roots catalogs) = length catalogs \<and>
     (\<forall>r\<in>set (pages_roots catalogs). parent_of file' r = Some (Reference root)) \<and>
     (- (2 ^ 63) \<le> sum_list (map sint (map (source_count file) catalogs)) \<and>
      sum_list (map sint (map (source_count file) catalogs)) < 2 ^ 63 \<longrightarrow>
        sint (sum_list (map (source_count file) catalogs)) =
          sum_list (map sint (map (source_count file) catalogs)))"
    by blast
qed

text \<open>Two sources with 3 and 5 pages: \<^verbatim>\<open>Count\<close> 8, two kids in input order, both reparented.\<close>

theorem mergePageTrees_root_witness:
  "mergePageTrees (two_roots 3 5) [catalog_of (ObjectReference 1 0), catalog_of (ObjectReference 2 0)] =
     (fst (mergePageTrees (two_roots 3 5)
             [catalog_of (ObjectReference 1 0), catalog_of (ObjectReference 2 0)]),
      Returns (ObjectReference 3 0, None)) \<and>
   Get (fst (mergePageTrees (two_roots 3 5)
               [catalog_of (ObjectReference 1 0), catalog_of (ObjectReference 2 0)]))
       (ObjectReference 3 0) =
     Dictionary [(''Type'', Name ''Pages''),
                 (''Kids'', Array [Reference (ObjectReference 1 0), Reference (ObjectReference 2 0)]),
                 (''Count'', Integer 8)] \<and>
   parent_of (fst (mergePageTrees (two_roots 3 5)
               [catalog_of (ObjectReference 1 0), catalog_of (ObjectReference 2 0)]))
       (ObjectReference 1 0) = Some (Reference (ObjectReference 3 0)) \<and>
   parent_of (fst (mergePageTrees (two_roots 3 5)
               [catalog_of (ObjectReference 1 0), catalog_of (ObjectReference 2 0)]))
       (ObjectReference 2 0) = Some (Reference (ObjectReference 3 0)) \<and>
   sint (sum_list (map (source_count (two_roots 3 5))
           [catalog_of (ObjectReference 1 0), catalog_of (ObjectReference 2 0)])) = 8"
proof -
  let ?cs = "[catalog_of (ObjectReference 1 0), catalog_of (ObjectReference 2 0)]"
  let ?f' = "fst (mergePageTrees (two_roots 3 5) ?cs)"
  have run: "mergePageTrees (two_roots 3 5) ?cs = (?f', Returns (ObjectReference 3 0, None))"
    unfolding two_roots_merged by simp
  have roots: "pages_roots ?cs = [ObjectReference 1 0, ObjectReference 2 0]"
    by (simp add: pages_roots_def map_filter_simps catalog_of_def)
  have counts: "map (source_count (two_roots 3 5)) ?cs = [3, 5]"
    by (simp add: source_count_def catalog_of_def two_roots_def Get_def)
  from mergePageTrees_root[of "two_roots 3 5" ?cs ?f' "ObjectReference 3 0"] run
  show ?thesis unfolding roots counts by simp
qed

text \<open>
  C3 as stated fails where the sum overflows: page-tree roots with the counts
  9223372036854775807 and 1 are merged successfully, and the \<^verbatim>\<open>Count\<close> of the new root is
  -9223372036854775808, not 9223372036854775808.
\<close>

theorem mergePageTrees_count_wraps:
  "snd (mergePageTrees (two_roots 9223372036854775807 1)
          [catalog_of (ObjectReference 1 0), catalog_of (ObjectReference 2 0)]) =
     Returns (ObjectReference 3 0, None) \<and>
   count_of (two_roots 9223372036854775807 1) (ObjectReference 1 0) = Some 9223372036854775807 \<and>
   count_of (two_roots 9223372036854775807 1) (ObjectReference 2 0) = Some 1 \<and>
   count_of (fst (mergePageTrees (two_roots 9223372036854775807 1)
                    [catalog_of (ObjectReference 1 0), catalog_of (ObjectReference 2 0)]))
       (ObjectReference 3 0) = Some (- 9223372036854775808) \<and>
   count_of (fst (mergePageTrees (two_roots 9223372036854775807 1)
                    [catalog_of (ObjectReference 1 0), catalog_of (ObjectReference 2 0)]))
       (ObjectReference 3 0) \<noteq> Some (9223372036854775807 + 1)"
  unfolding two_roots_merged by (simp add: count_of_def two_roots_def Get_def)

text \<open>
  C4, as amended. When some catalog is not well formed (it has no \<^verbatim>\<open>Pages\<close> entry that is a
  reference, or the object that \<^verbatim>\<open>Pages\<close> names is not a Dictionary with a \<^verbatim>\<open>Count\<close> entry
  that is an Integer), \<^verbatim>\<open>mergePageTrees\<close> does not succeed and returns no structural error:
  it panics in one of its three type assertions, unless an \<^verbatim>\<open>Add\<close> of the store failed
  before that, in which case it returns that \<^verbatim>\<open>Add\<close>'s error.
\<close>

theorem mergePageTrees_ill_formed_catalog:
  "\<not> list_all (well_formed file) catalogs \<longrightarrow>
     (case snd (mergePageTrees file catalogs) of
        Panics p \<Rightarrow> p \<in> {PagesNotObjectReference, PagesNotDictionary, CountNotInteger}
      | Returns (r, err) \<Rightarrow> err = Some AddError \<and> True \<in> set (add_faults file))"
proof
  assume ill: "\<not> list_all (well_formed file) catalogs"
  obtain file' out where run: "mergePageTrees file catalogs = (file', out)"
    by (cases "mergePageTrees file catalogs") auto
  from mergePageTrees_ill_formed[OF run ill] run
  show "case snd (mergePageTrees file catalogs) of
        Panics p \<Rightarrow> p \<in> {PagesNotObjectReference, PagesNotDictionary, CountNotInteger}
      | Returns (r, err) \<Rightarrow> err = Some AddError \<and> True \<in> set (add_faults file)"
    by simp
qed

text \<open>The second of two catalogs has no \<^verbatim>\<open>Pages\<close>.\<close>

theorem mergePageTrees_ill_formed_catalog_witness:
  "\<not> list_all (well_formed (two_roots 3 5))
        [catalog_of (ObjectReference 1 0), [(''Type'', Name ''Catalog'')]] \<and>
   (case snd (mergePageTrees (two_roots 3 5)
                [catalog_of (ObjectReference 1 0), [(''Type'', Name ''Catalog'')]]) of
      Panics p \<Rightarrow> p \<in> {PagesNotObjectReference, PagesNotDictionary, CountNotInteger}
    | Returns (r, err) \<Rightarrow> err = Some AddError \<and> True \<in> set (add_faults (two_roots 3 5)))"
proof -
  have ill: "\<not> list_all (well_formed (two_roots 3 5))
        [catalog_of (ObjectReference 1 0), [(''Type'', Name ''Catalog'')]]"
    by (simp add: well_formed_def)
  with mergePageTrees_ill_formed_catalog[of "two_roots 3 5"
      "[catalog_of (ObjectReference 1 0), [(''Type'', Name ''Catalog'')]]"]
  show ?thesis by blast
qed

text \<open>
  C4 as stated fails: no error is returned. With a second catalog that has no \<^verbatim>\<open>Pages\<close>
  the call panics after it has reparented the first source's root and before it has
  replaced the placeholder of the new root; a \<^verbatim>\<open>Pages\<close> that names no Dictionary and a
  page-tree root without \<^verbatim>\<open>Count\<close> panic as well.
\<close>

theorem mergePageTrees_panics:
  "mergePageTrees (two_roots 3 5) [catalog_of (ObjectReference 1 0), [(''Type'', Name ''Catalog'')]] =
     (\<lparr>objects =
         [(ObjectReference 1 0,
           Dictionary [(''Type'', Name ''Pages''), (''Count'', Integer 3),
                       (''Parent'', Reference (ObjectReference 3 0))]),
          (ObjectReference 2 0, Dictionary [(''Type'', Name ''Pages''), (''Count'', Integer 5)]),
          (ObjectReference 3 0, Null)],
        Root = ObjectReference 0 0, add_faults = [], save_fault = False\<rparr>,
      Panics PagesNotObjectReference) \<and>
   snd (mergePageTrees (two_roots 3 5) [catalog_of (ObjectReference 7 0)]) =
     Panics PagesNotDictionary \<and>
   snd (mergePageTrees
          \<lparr>objects = [(ObjectReference 1 0, Dictionary [(''Type'', Name ''Pages'')])],
             Root = ObjectReference 0 0, add_faults = [], save_fault = False\<rparr>
          [catalog_of (ObjectReference 1 0)]) =
     Panics CountNotInteger"
  by (simp add: mergePageTrees_def two_roots_def catalog_of_def Add_def Get_def free_reference_def)

text \<open>
  C5. The code at the failing input: \<^verbatim>\<open>copyReferencedObjects\<close> answers Null, a defined
  object kind, with the error \<^verbatim>\<open>unhandled pdf.Null\<close>; so the merge of a source whose
  catalog has an entry with the null object fails with that error.
\<close>

theorem copy_Null_unhandled:
  "copyReferencedObjects refs dst src Null = (dst, Inl (Unhandled ''pdf.Null'')) \<and>
   MergeFiles null_entry_source ''out.pdf'' [''a.pdf''] =
     ([Created ''out.pdf'', Opened ''a.pdf'', Closed ''a.pdf''],
      None, Returns (Some (Unhandled ''pdf.Null'')))"
proof
  show "copyReferencedObjects refs dst src Null = (dst, Inl (Unhandled ''pdf.Null''))" by simp
  show "MergeFiles null_entry_source ''out.pdf'' [''a.pdf''] =
     ([Created ''out.pdf'', Opened ''a.pdf'', Closed ''a.pdf''],
      None, Returns (Some (Unhandled ''pdf.Null'')))"
    by code_simp
qed

text \<open>
  C6. A copy pass leaves every slot that the destination had before it as it was (what
  an earlier source's pass has written is not touched by a later one). In
  \<^verbatim>\<open>mergePageTrees\<close>, a slot that the store had before the call is unchanged, or it is the
  \<^verbatim>\<open>Pages\<close> root of one of the catalogs, it held a Dictionary and holds a Dictionary with
  the same fields but for \<^verbatim>\<open>Parent\<close>, which is the reference of the new root.
\<close>

theorem reparenting_frame:
  "preserves dst (fst (copyReferencedObjects refs dst src obj)) \<and>
   (\<forall>r\<in>keys file.
      Get (fst (mergePageTrees file catalogs)) r = Get file r \<or>
      (r \<in> set (pages_roots catalogs) \<and>
       (\<exists>d d'. Get file r = Dictionary d \<and>
                Get (fst (mergePageTrees file catalogs)) r = Dictionary d' \<and>
                map_of d' = (map_of d)(''Parent'' \<mapsto> Reference (free_reference file)))))"
proof (intro conjI ballI)
  show "preserves dst (fst (copyReferencedObjects refs dst src obj))"
    by (rule copy_preserves(1))
next
  fix r assume r: "r \<in> keys file"
  obtain file' out where run: "mergePageTrees file catalogs = (file', out)"
    by (cases "mergePageTrees file catalogs") auto
  from mergePageTrees_frame[OF run r] run
  show "Get (fst (mergePageTrees file catalogs)) r = Get file r \<or>
      (r \<in> set (pages_roots catalogs) \<and>
       (\<exists>d d'. Get file r = Dictionary d \<and>
                Get (fst (mergePageTrees file catalogs)) r = Dictionary d' \<and>
                map_of d' = (map_of d)(''Parent'' \<mapsto> Reference (free_reference file))))"
    by simp
qed

text \<open>
  A copy into a store that holds two page-tree roots, and a merge of the first of them:
  its root gets the \<^verbatim>\<open>Parent\<close>, the other slot stays.
\<close>

theorem reparenting_frame_witness:
  "preserves (two_roots 3 5)
     (fst (copyReferencedObjects Map.empty (two_roots 3 5) shared_cyclic (Reference (ObjectReference 1 0)))) \<and>
   objects (fst (copyReferencedObjects Map.empty (two_roots 3 5) shared_cyclic
                   (Reference (ObjectReference 1 0)))) =
     [(ObjectReference 1 0, Dictionary [(''Type'', Name ''Pages''), (''Count'', Integer 3)]),
      (ObjectReference 2 0, Dictionary [(''Type'', Name ''Pages''), (''Count'', Integer 5)]),
      (ObjectReference 3 0,
       Dictionary [(''A'', Reference (ObjectReference 4 0)), (''B'', Reference (ObjectReference 4 0))]),
      (ObjectReference 4 0, Array [Reference (ObjectReference 3 0), Integer 3])] \<and>
   keys (two_roots 3 5) = {ObjectReference 1 0, ObjectReference 2 0} \<and>
   Get (fst (mergePageTrees (two_roots 3 5) [catalog_of (ObjectReference 1 0)])) (ObjectReference 1 0) =
     Dictionary [(''Type'', Name ''Pages''), (''Count'', Integer 3),
                 (''Parent'', Reference (free_reference (two_roots 3 5)))] \<and>
   Get (fst (mergePageTrees (two_roots 3 5) [catalog_of (ObjectReference 1 0)])) (ObjectReference 2 0) =
     Get (two_roots 3 5) (ObjectReference 2 0)"
  using reparenting_frame[of "two_roots 3 5" Map.empty shared_cyclic "Reference (ObjectReference 1 0)"
      "two_roots 3 5" "[catalog_of (ObjectReference 1 0)]"]
  by (simp add: mergePageTrees_def two_roots_def catalog_of_def shared_cyclic_def Add_def Get_def
      free_reference_def keys_def preserves_def)

text \<open>
  C7, as amended. The steps of every run of \<^verbatim>\<open>MergeFiles\<close> are a beginning of the plan
  (created; then, for each source in order, opened and after that copied; then page trees
  merged; catalog installed; saved), followed by the closing of exactly the sources opened
  in that beginning; the run returns nil if and only if it did the whole plan. So the
  steps are strictly sequential, and each source is opened just before its own copy: a
  source is copied before the next one is opened.
\<close>

theorem MergeFiles_steps_in_order:
  "\<exists>n\<le>length (plan dest sources).
     fst (MergeFiles e dest sources) =
       take n (plan dest sources) @ map Closed (opened_of (take n (plan dest sources))) \<and>
     (snd (snd (MergeFiles e dest sources)) = Returns None \<longleftrightarrow> n = length (plan dest sources))"
  using MergeFiles_trace[of dest sources e] by blast

text \<open>The run on the two sources does the whole plan and then closes both.\<close>

theorem MergeFiles_steps_in_order_witness:
  "fst (MergeFiles two_sources ''out.pdf'' [''a.pdf'', ''b.pdf'']) =
     plan ''out.pdf'' [''a.pdf'', ''b.pdf''] @ [Closed ''a.pdf'', Closed ''b.pdf''] \<and>
   snd (snd (MergeFiles two_sources ''out.pdf'' [''a.pdf'', ''b.pdf''])) = Returns None \<and>
   (\<exists>n\<le>length (plan ''out.pdf'' [''a.pdf'', ''b.pdf'']).
      fst (MergeFiles two_sources ''out.pdf'' [''a.pdf'', ''b.pdf'']) =
        take n (plan ''out.pdf'' [''a.pdf'', ''b.pdf'']) @
        map Closed (opened_of (take n (plan ''out.pdf'' [''a.pdf'', ''b.pdf'']))))"
proof -
  have "fst (MergeFiles two_sources ''out.pdf'' [''a.pdf'', ''b.pdf'']) =
     plan ''out.pdf'' [''a.pdf'', ''b.pdf''] @ [Closed ''a.pdf'', Closed ''b.pdf'']"
    by code_simp
  moreover have "snd (snd (MergeFiles two_sources ''out.pdf'' [''a.pdf'', ''b.pdf''])) = Returns None"
    by code_simp
  ultimately show ?thesis
    using MergeFiles_steps_in_order[of "''out.pdf''" "[''a.pdf'', ''b.pdf'']" two_sources]
    by blast
qed

text \<open>
  C7 as stated fails: the sources are not all opened before the first copy. With two
  sources, \<^verbatim>\<open>a.pdf\<close> is copied before \<^verbatim>\<open>b.pdf\<close> is opened; and when the second source cannot be
  opened, the first has been copied into the destination already.
\<close>

theorem sources_opened_one_by_one:
  "fst (MergeFiles two_sources ''out.pdf'' [''a.pdf'', ''b.pdf'']) =
     [Created ''out.pdf'', Opened ''a.pdf'', Copied ''a.pdf'', Opened ''b.pdf'', Copied ''b.pdf'',
      PageTreesMerged, CatalogInstalled, Saved, Closed ''a.pdf'', Closed ''b.pdf''] \<and>
   \<not> opened_before_copied (fst (MergeFiles two_sources ''out.pdf'' [''a.pdf'', ''b.pdf''])) \<and>
   MergeFiles two_sources ''out.pdf'' [''a.pdf'', ''c.pdf''] =
     ([Created ''out.pdf'', Opened ''a.pdf'', Copied ''a.pdf'', Closed ''a.pdf''], None,
      Returns (Some (OpenError ''c.pdf'')))"
  by code_simp

text \<open>
  C8. However \<^verbatim>\<open>MergeFiles\<close> ends (success, an open or copy error, an error of the page-tree
  merge, of the catalog \<^verbatim>\<open>Add\<close> or of \<^verbatim>\<open>Save\<close>, a failed \<^verbatim>\<open>Create\<close>, or a panic), the sources it
  has closed are exactly the sources it has opened, in the same order; the closings are
  the last steps of the run, after everything else.
\<close>

theorem MergeFiles_closes_sources:
  "closed_of (fst (MergeFiles e dest sources)) = opened_of (fst (MergeFiles e dest sources)) \<and>
   (\<exists>pre. fst (MergeFiles e dest sources) = pre @ map Closed (opened_of pre) \<and>
          closed_of pre = [])"
proof -
  from MergeFiles_trace[of dest sources e] obtain n where
    tr: "fst (MergeFiles e dest sources) =
       take n (plan dest sources) @ map Closed (opened_of (take n (plan dest sources)))"
    by blast
  have c: "closed_of (take n (plan dest sources)) = []"
    using closed_of_plan by (rule closed_of_take)
  have "closed_of (fst (MergeFiles e dest sources)) = opened_of (fst (MergeFiles e dest sources))"
    unfolding tr by (simp add: closed_of_append opened_of_append c closed_of_Closed opened_of_Closed)
  with tr c show ?thesis by blast
qed

text \<open>A run that fails to open its second source, and a run that succeeds.\<close>

theorem MergeFiles_closes_sources_witness:
  "closed_of (fst (MergeFiles two_sources ''out.pdf'' [''a.pdf'', ''c.pdf''])) = [''a.pdf''] \<and>
   opened_of (fst (MergeFiles two_sources ''out.pdf'' [''a.pdf'', ''c.pdf''])) = [''a.pdf''] \<and>
   closed_of (fst (MergeFiles two_sources ''out.pdf'' [''a.pdf'', ''b.pdf''])) = [''a.pdf'', ''b.pdf''] \<and>
   opened_of (fst (MergeFiles two_sources ''out.pdf'' [''a.pdf'', ''b.pdf''])) = [''a.pdf'', ''b.pdf'']"
proof -
  have "opened_of (fst (MergeFiles two_sources ''out.pdf'' [''a.pdf'', ''c.pdf''])) = [''a.pdf'']"
    by code_simp
  moreover
  have "opened_of (fst (MergeFiles two_sources ''out.pdf'' [''a.pdf'', ''b.pdf''])) = [''a.pdf'', ''b.pdf'']"
    by code_simp
  ultimately show ?thesis
    using MergeFiles_closes_sources[of two_sources "''out.pdf''" "[''a.pdf'', ''c.pdf'']"]
      MergeFiles_closes_sources[of two_sources "''out.pdf''" "[''a.pdf'', ''b.pdf'']"]
    by simp
qed

text \<open>
  C9. A successful \<^verbatim>\<open>copyReferencedObjects\<close> on a reference \<open>t\<close> returns a reference \<open>r\<close>, and
  \<open>r\<close> is a destination reference: it is what the returned table maps \<open>t\<close> to; when the
  table did not have \<open>t\<close> (as in \<^verbatim>\<open>MergeFiles\<close>, which starts every source with an empty
  table), \<open>r\<close> names a slot of the destination that the call has added; when the table had
  \<open>t\<close>, \<open>r\<close> is the reference the table held and the destination is unchanged; and when
  every reference of the given table names a slot of the destination, so do \<open>r\<close> and every
  reference of the returned table. Hence the assertion \<^verbatim>\<open>root.(pdf.ObjectReference)\<close> of
  \<^verbatim>\<open>MergeFiles\<close> never fails.
\<close>

theorem copy_reference_gives_reference:
  "(copyReferencedObjects refs dst src (Reference t) = (dst', Inr (refs', obj')) \<longrightarrow>
      (\<exists>r. obj' = Reference r \<and> refs' t = Some r \<and>
           (refs t = None \<longrightarrow> r \<in> keys dst' - keys dst) \<and>
           (\<forall>r0. refs t = Some r0 \<longrightarrow> r = r0 \<and> dst' = dst) \<and>
           (ran refs \<subseteq> keys dst \<longrightarrow> r \<in> keys dst' \<and> ran refs' \<subseteq> keys dst'))) \<and>
   snd (snd (MergeFiles e dest sources)) \<noteq> Panics RootNotObjectReference"
proof (intro conjI impI)
  assume run: "copyReferencedObjects refs dst src (Reference t) = (dst', Inr (refs', obj'))"
  from run [THEN copy_reference_table] obtain r where
    r: "obj' = Reference r" "refs' t = Some r" and
    old: "\<forall>r0. refs t = Some r0 \<longrightarrow> r = r0 \<and> dst' = dst"
    by blast
  from run have g: "grows refs dst refs' dst'" by (rule copy_grows(1))
  have new: "refs t = None \<longrightarrow> r \<in> keys dst' - keys dst"
  proof
    assume "refs t = None"
    with g show "r \<in> keys dst' - keys dst" using r(2) by (rule grows_new_slot)
  qed
  have slots: "ran refs \<subseteq> keys dst \<longrightarrow> r \<in> keys dst' \<and> ran refs' \<subseteq> keys dst'"
  proof
    assume "ran refs \<subseteq> keys dst"
    with g have "ran refs' \<subseteq> keys dst'" by (rule grows_ran)
    moreover from r(2) have "r \<in> ran refs'" by (auto simp: ran_def)
    ultimately show "r \<in> keys dst' \<and> ran refs' \<subseteq> keys dst'" by blast
  qed
  show "\<exists>r. obj' = Reference r \<and> refs' t = Some r \<and>
       (refs t = None \<longrightarrow> r \<in> keys dst' - keys dst) \<and>
       (\<forall>r0. refs t = Some r0 \<longrightarrow> r = r0 \<and> dst' = dst) \<and>
       (ran refs \<subseteq> keys dst \<longrightarrow> r \<in> keys dst' \<and> ran refs' \<subseteq> keys dst')"
  proof (intro exI conjI)
    show "obj' = Reference r" by (rule r(1))
    show "refs' t = Some r" by (rule r(2))
    show "refs t = None \<longrightarrow> r \<in> keys dst' - keys dst" by (rule new)
    show "\<forall>r0. refs t = Some r0 \<longrightarrow> r = r0 \<and> dst' = dst" by (rule old)
    show "ran refs \<subseteq> keys dst \<longrightarrow> r \<in> keys dst' \<and> ran refs' \<subseteq> keys dst'" by (rule slots)
  qed
next
  from MergeFiles_trace[of dest sources e] have
    "\<forall>p. snd (snd (MergeFiles e dest sources)) = Panics p \<longrightarrow>
        p \<in> {CatalogNotDictionary, PagesNotObjectReference, PagesNotDictionary, CountNotInteger}"
    by blast
  then show "snd (snd (MergeFiles e dest sources)) \<noteq> Panics RootNotObjectReference" by auto
qed

text \<open>
  The root of a one-page document (source reference 1) copied into a store that already
  has the slots 1 and 2: with an empty table the result is the new slot 3; with a table
  that maps source reference 1 to slot 2 it is slot 2. And the run on the two sources.
\<close>

theorem copy_reference_gives_reference_witness:
  "(\<exists>dst' refs'.
      copyReferencedObjects Map.empty (two_roots 3 5) (page_doc 3) (Reference (ObjectReference 1 0)) =
        (dst', Inr (refs', Reference (ObjectReference 3 0))) \<and>
      refs' (ObjectReference 1 0) = Some (ObjectReference 3 0) \<and>
      ObjectReference 3 0 \<in> keys dst' \<and> ObjectReference 3 0 \<notin> keys (two_roots 3 5) \<and>
      ran refs' \<subseteq> keys dst') \<and>
   (\<exists>dst' refs'.
      copyReferencedObjects [ObjectReference 1 0 \<mapsto> ObjectReference 2 0] (two_roots 3 5) (page_doc 3)
          (Reference (ObjectReference 1 0)) =
        (dst', Inr (refs', Reference (ObjectReference 2 0))) \<and>
      dst' = two_roots 3 5 \<and> ObjectReference 2 0 \<in> keys dst') \<and>
   snd (snd (MergeFiles two_sources ''out.pdf'' [''a.pdf'', ''b.pdf''])) \<noteq> Panics RootNotObjectReference"
proof -
  let ?t = "ObjectReference 1 0" and ?dst = "two_roots 3 5" and ?src = "page_doc 3"
  let ?refs = "[ObjectReference 1 0 \<mapsto> ObjectReference 2 0]"
  let ?none = "Map.empty :: table"
  have "\<exists>dst' refs'.
      copyReferencedObjects Map.empty ?dst ?src (Reference ?t) =
        (dst', Inr (refs', Reference (ObjectReference 3 0)))"
    by (simp add: page_doc_def two_roots_def Add_def Get_def free_reference_def)
  then obtain dst' refs' where
    run: "copyReferencedObjects Map.empty ?dst ?src (Reference ?t) =
        (dst', Inr (refs', Reference (ObjectReference 3 0)))" by blast
  have hit: "copyReferencedObjects ?refs ?dst ?src (Reference ?t) =
      (?dst, Inr (?refs, Reference (ObjectReference 2 0)))"
    by simp
  have ran: "ran ?refs \<subseteq> keys ?dst"
    by (simp add: keys_def two_roots_def)
  have none: "?none ?t = None" by simp
  note new = copy_reference_gives_reference[of Map.empty ?dst ?src ?t
      dst' refs' "Reference (ObjectReference 3 0)" two_sources "''out.pdf''" "[''a.pdf'', ''b.pdf'']"]
  from new have nopanic:
    "snd (snd (MergeFiles two_sources ''out.pdf'' [''a.pdf'', ''b.pdf''])) \<noteq>
      Panics RootNotObjectReference"
    by (rule conjunct2)
  from new [THEN conjunct1, THEN mp, OF run] obtain r where
    r: "Reference (ObjectReference 3 0) = Reference r" "refs' ?t = Some r" and
    r1: "?none ?t = None \<longrightarrow> r \<in> keys dst' - keys ?dst" and
    r2: "ran ?none \<subseteq> keys ?dst \<longrightarrow> r \<in> keys dst' \<and> ran refs' \<subseteq> keys dst'"
    by blast
  from r(1) have req: "r = ObjectReference 3 0" by simp
  from r1 none have "r \<in> keys dst' - keys ?dst" by (rule mp)
  moreover have "ran ?none \<subseteq> keys ?dst" by simp
  with r2 have "r \<in> keys dst' \<and> ran refs' \<subseteq> keys dst'" by (rule mp)
  ultimately have fresh: "refs' ?t = Some (ObjectReference 3 0) \<and>
      ObjectReference 3 0 \<in> keys dst' \<and> ObjectReference 3 0 \<notin> keys ?dst \<and>
      ran refs' \<subseteq> keys dst'"
    using r(2) unfolding req by blast
  note old = copy_reference_gives_reference[of ?refs ?dst ?src ?t
      ?dst ?refs "Reference (ObjectReference 2 0)" two_sources "''out.pdf''" "[''a.pdf'', ''b.pdf'']"]
  from old [THEN conjunct1, THEN mp, OF hit] obtain r' where
    r': "Reference (ObjectReference 2 0) = Reference r'" and
    r'2: "ran ?refs \<subseteq> keys ?dst \<longrightarrow> r' \<in> keys ?dst \<and> ran ?refs \<subseteq> keys ?dst"
    by blast
  from r' have "r' = ObjectReference 2 0" by simp
  with r'2 ran have known: "ObjectReference 2 0 \<in> keys ?dst" by blast
  from run fresh have A: "\<exists>dst' refs'.
      copyReferencedObjects Map.empty ?dst ?src (Reference ?t) =
        (dst', Inr (refs', Reference (ObjectReference 3 0))) \<and>
      refs' ?t = Some (ObjectReference 3 0) \<and>
      ObjectReference 3 0 \<in> keys dst' \<and> ObjectReference 3 0 \<notin> keys ?dst \<and>
      ran refs' \<subseteq> keys dst'" by blast
  from hit known have B: "\<exists>dst' refs'.
      copyReferencedObjects ?refs ?dst ?src (Reference ?t) =
        (dst', Inr (refs', Reference (ObjectReference 2 0))) \<and>
      dst' = ?dst \<and> ObjectReference 2 0 \<in> keys dst'" by blast
  from A B nopanic show ?thesis by (intro conjI)
qed

text \<open>
  C10. With no sources, and a destination whose \<^verbatim>\<open>Create\<close>, \<^verbatim>\<open>Add\<close> and \<^verbatim>\<open>Save\<close> succeed,
  \<^verbatim>\<open>MergeFiles\<close> returns nil and saves a document whose \<^verbatim>\<open>Root\<close> is the catalog
  \<^verbatim>\<open>{Type: Catalog, Pages: ref}\<close>, where \<^verbatim>\<open>ref\<close> holds the page tree
  \<^verbatim>\<open>{Type: Pages, Kids: [], Count: 0}\<close>.
\<close>

theorem MergeFiles_no_sources:
  "Create e dest = Some m \<and> True \<notin> set (add_faults m) \<and> \<not> save_fault m \<longrightarrow>
     (\<exists>m' pages.
        MergeFiles e dest [] =
          ([Created dest, PageTreesMerged, CatalogInstalled, Saved], Some m', Returns None) \<and>
        Get m' (Root m') =
          Dictionary [(''Type'', Name ''Catalog''), (''Pages'', Reference pages)] \<and>
        Get m' pages =
          Dictionary [(''Type'', Name ''Pages''), (''Kids'', Array []), (''Count'', Integer 0)])"
proof
  assume h: "Create e dest = Some m \<and> True \<notin> set (add_faults m) \<and> \<not> save_fault m"
  then have cr: "Create e dest = Some m" and nf: "True \<notin> set (add_faults m)"
    and sv: "\<not> save_fault m" by blast+
  let ?pages = "free_reference m"
  let ?tree = "Dictionary [(''Type'', Name ''Pages''), (''Kids'', Array []), (''Count'', Integer 0)]"
  let ?catalog = "Dictionary [(''Type'', Name ''Catalog''), (''Pages'', Reference ?pages)]"
  let ?m1 = "m\<lparr>objects := AList.update ?pages ?tree (objects m),
        add_faults := tl (tl (add_faults m))\<rparr>"
  let ?root = "free_reference ?m1"
  let ?m2 = "?m1\<lparr>objects := AList.update ?root ?catalog (objects ?m1),
        add_faults := tl (add_faults ?m1)\<rparr>"
  let ?m' = "?m2\<lparr>Root := ?root\<rparr>"
  have mp: "mergePageTrees m [] = (?m1, Returns (?pages, None))"
    using nf by (rule mergePageTrees_no_catalogs)
  have nf1: "True \<notin> set (add_faults ?m1)" using nf by (simp add: no_fault_tl)
  have add: "Add ?m1 ?catalog = (?m2, ?root, None)"
    using nf1 by (intro Add_direct_ok) simp_all
  have body: "MergeFiles_body e \<lparr>merged = m, closers = [], roots = [], trace = [Created dest]\<rparr> [] =
      (\<lparr>merged = ?m', closers = [], roots = [],
         trace = [Created dest, PageTreesMerged, CatalogInstalled, Saved]\<rparr>, Some ?m', Returns None)"
    unfolding MergeFiles_body_def by (simp add: mp add Save_def sv Let_def)
  have run: "MergeFiles e dest [] =
      ([Created dest, PageTreesMerged, CatalogInstalled, Saved], Some ?m', Returns None)"
    unfolding MergeFiles_def cr by (simp add: body)
  have "?pages \<in> keys ?m1" by (simp add: keys_def keys_update)
  moreover have "?root \<notin> keys ?m1" by (rule free_reference_fresh)
  ultimately have ne: "?pages \<noteq> ?root" by auto
  have g1: "Get ?m' (Root ?m') = ?catalog" by (simp add: Get_def update_conv')
  have g2: "Get ?m' ?pages = ?tree" using ne by (simp add: Get_def update_conv')
  from run g1 g2 show "\<exists>m' pages.
        MergeFiles e dest [] =
          ([Created dest, PageTreesMerged, CatalogInstalled, Saved], Some m', Returns None) \<and>
        Get m' (Root m') =
          Dictionary [(''Type'', Name ''Catalog''), (''Pages'', Reference pages)] \<and>
        Get m' pages =
          Dictionary [(''Type'', Name ''Pages''), (''Kids'', Array []), (''Count'', Integer 0)]"
    by blast
qed

text \<open>The empty destination \<^verbatim>\<open>out.pdf\<close>.\<close>

theorem MergeFiles_no_sources_witness:
  "Create two_sources ''out.pdf'' = Some empty_File \<and>
   True \<notin> set (add_faults empty_File) \<and> \<not> save_fault empty_File \<and>
   MergeFiles two_sources ''out.pdf'' [] =
     ([Created ''out.pdf'', PageTreesMerged, CatalogInstalled, Saved],
      Some \<lparr>objects =
              [(ObjectReference 1 0,
                Dictionary [(''Type'', Name ''Pages''), (''Kids'', Array []), (''Count'', Integer 0)]),
               (ObjectReference 2 0,
                Dictionary [(''Type'', Name ''Catalog''), (''Pages'', Reference (ObjectReference 1 0))])],
             Root = ObjectReference 2 0, add_faults = [], save_fault = False\<rparr>,
      Returns None)"
proof -
  have h: "Create two_sources ''out.pdf'' = Some empty_File \<and>
      True \<notin> set (add_faults empty_File) \<and> \<not> save_fault empty_File"
    by (simp add: two_sources_def empty_File_def)
  have run: "MergeFiles two_sources ''out.pdf'' [] =
     ([Created ''out.pdf'', PageTreesMerged, CatalogInstalled, Saved],
      Some \<lparr>objects =
              [(ObjectReference 1 0,
                Dictionary [(''Type'', Name ''Pages''), (''Kids'', Array []), (''Count'', Integer 0)]),
               (ObjectReference 2 0,
                Dictionary [(''Type'', Name ''Catalog''), (''Pages'', Reference (ObjectReference 1 0))])],
             Root = ObjectReference 2 0, add_faults = [], save_fault = False\<rparr>,
      Returns None)"
    by code_simp
  from MergeFiles_no_sources[of two_sources "''out.pdf''" empty_File] h run
  show ?thesis by blast
qed

end
